theory Spec2Isabelle
  imports Main "HOL-Library.AList" "HOL-Library.Word"
begin

section \<open>The job queue (risscraper/queue.py)\<close>

text \<open>
  Python exceptions are values. \<open>TypeError\<close> is what subscripting \<open>None\<close> raises,
  \<open>KeyError\<close> what a dict raises on a missing key, \<open>DuplicateKeyError\<close> what the store
  raises on a violated unique index, \<open>AssertionError\<close> a failed \<open>assert\<close>,
  \<open>AttributeError\<close> what reading an attribute an object does not have raises.
\<close>

datatype error = KeyError | TypeError | AttributeError | DuplicateKeyError | AssertionError

text \<open>The four strings the code ever writes into the field \<open>status\<close>.\<close>

datatype status = OPEN | IN_PROGRESS | DONE | FAILED

text \<open>
  A document of the collection \<open>queue\<close>, with the fields \<open>add\<close> gives it. \<open>oid\<close> is the
  field \<open>_id\<close>; \<open>payload\<close> is \<open>None\<close> when the document has no such field. Keys are
  ints or strings in the source; the model is polymorphic in them.
\<close>

record ('k, 'p) job =
  oid :: nat
  rs :: string
  qname :: string
  status :: status
  key :: 'k
  failures :: int
  last_modified :: nat
  payload :: "'p option"

text \<open>
  The store as the queue sees it: the collection in its natural order (the order in which
  \<open>find_one\<close> and \<open>find_and_modify\<close> scan it) and the counter from which fresh
  \<open>_id\<close> values are drawn. The unique index on \<open>(rs, qname, key)\<close> that \<open>__init__\<close>
  ensures is enforced by \<open>insert_job\<close>.
\<close>

record ('k, 'p) mongo =
  queue_coll :: "('k, 'p) job list"
  oid_counter :: nat

text \<open>A \<open>Queue\<close> object: \<open>self.name\<close> and \<open>self.config.RS\<close>.\<close>

record queue_obj =
  q_name :: string
  q_rs :: string

text \<open>
  The argument \<open>key_or_element\<close>: a bare key, or a dict with the entries \<open>key\<close> and
  \<open>payload\<close>, each of which may be missing.
\<close>

datatype ('k, 'p) key_or_element = Key 'k | Element "'k option" "'p option"

subsection \<open>Store primitives\<close>

text \<open>\<open>find_one(query)\<close>: the first document that matches, or \<open>None\<close>.\<close>

definition find_one :: "('a \<Rightarrow> bool) \<Rightarrow> 'a list \<Rightarrow> 'a option" where
  "find_one query coll = List.find query coll"

text \<open>
  \<open>find_and_modify(query, update)\<close>: updates the first matching document in place and
  returns it as it was before the update; \<open>None\<close> and no change when nothing matches.
\<close>

fun find_and_modify :: "('a \<Rightarrow> bool) \<Rightarrow> ('a \<Rightarrow> 'a) \<Rightarrow> 'a list \<Rightarrow> 'a option \<times> 'a list" where
  "find_and_modify query upd [] = (None, [])"
| "find_and_modify query upd (d # ds) =
     (if query d then (Some d, upd d # ds)
      else (fst (find_and_modify query upd ds), d # snd (find_and_modify query upd ds)))"

text \<open>\<open>update(query, update)\<close> without \<open>multi\<close>: changes the first matching document only.\<close>

fun update_one :: "('a \<Rightarrow> bool) \<Rightarrow> ('a \<Rightarrow> 'a) \<Rightarrow> 'a list \<Rightarrow> 'a list" where
  "update_one query upd [] = []"
| "update_one query upd (d # ds) =
     (if query d then upd d # ds else d # update_one query upd ds)"

text \<open>\<open>remove(query)\<close>: deletes every matching document.\<close>

definition remove_all :: "('a \<Rightarrow> bool) \<Rightarrow> 'a list \<Rightarrow> 'a list" where
  "remove_all query coll = filter (\<lambda>d. \<not> query d) coll"

text \<open>
  \<open>save(job)\<close> of a document without \<open>_id\<close>: an insert. The driver draws a fresh \<open>_id\<close>
  before it sends the document; the store refuses it with \<open>DuplicateKeyError\<close> when a
  document with the same \<open>(rs, qname, key)\<close> exists.
\<close>

definition same_index_key :: "('k, 'p) job \<Rightarrow> ('k, 'p) job \<Rightarrow> bool" where
  "same_index_key a b \<longleftrightarrow> rs a = rs b \<and> qname a = qname b \<and> key a = key b"

definition insert_job :: "('k, 'p) job \<Rightarrow> ('k, 'p) mongo \<Rightarrow> (error + nat) \<times> ('k, 'p) mongo" where
  "insert_job doc db =
     (let new_id = oid_counter db;
          db1 = db\<lparr>oid_counter := Suc new_id\<rparr>
      in if list_ex (same_index_key doc) (queue_coll db) then (Inl DuplicateKeyError, db1)
         else (Inr new_id, db1\<lparr>queue_coll := queue_coll db @ [doc\<lparr>oid := new_id\<rparr>]\<rparr>))"

subsection \<open>The methods of \<open>Queue\<close>\<close>

text \<open>\<open>key_or_element['key']\<close> for a dict, the argument itself otherwise.\<close>

fun key_of :: "('k, 'p) key_or_element \<Rightarrow> error + 'k" where
  "key_of (Key k) = Inr k"
| "key_of (Element None p) = Inl KeyError"
| "key_of (Element (Some k) p) = Inr k"

fun payload_of :: "('k, 'p) key_or_element \<Rightarrow> 'p option" where
  "payload_of (Key k) = None"
| "payload_of (Element k p) = p"

text \<open>The three queries the methods build.\<close>

definition open_query :: "queue_obj \<Rightarrow> ('k, 'p) job \<Rightarrow> bool" where
  "open_query q j \<longleftrightarrow> rs j = q_rs q \<and> qname j = q_name q \<and> status j = OPEN"

definition key_query :: "queue_obj \<Rightarrow> 'k \<Rightarrow> ('k, 'p) job \<Rightarrow> bool" where
  "key_query q k j \<longleftrightarrow> rs j = q_rs q \<and> qname j = q_name q \<and> key j = k"

definition done_query :: "queue_obj \<Rightarrow> ('k, 'p) job \<Rightarrow> bool" where
  "done_query q j \<longleftrightarrow> rs j = q_rs q \<and> qname j = q_name q \<and> status j = DONE"

text \<open>\<open>__len__\<close> and \<open>has_next\<close>: the number of OPEN jobs of this queue.\<close>

definition len :: "queue_obj \<Rightarrow> ('k, 'p) mongo \<Rightarrow> nat" where
  "len q db = length (filter (open_query q) (queue_coll db))"

definition has_next :: "queue_obj \<Rightarrow> ('k, 'p) mongo \<Rightarrow> bool" where
  "has_next q db \<longleftrightarrow> len q db > 0"

text \<open>
  \<open>add\<close>. \<open>now\<close> is the value of \<open>datetime.utcnow()\<close>. The \<open>DuplicateKeyError\<close> of
  \<open>save\<close> is caught and dropped.
\<close>

definition add :: "queue_obj \<Rightarrow> nat \<Rightarrow> ('k, 'p) key_or_element \<Rightarrow> ('k, 'p) mongo
    \<Rightarrow> (error + unit) \<times> ('k, 'p) mongo" where
  "add q now key_or_element db =
     (case key_of key_or_element of
        Inl e \<Rightarrow> (Inl e, db)
      | Inr k \<Rightarrow>
          (let job = \<lparr>oid = 0, rs = q_rs q, qname = q_name q, status = OPEN, key = k,
                      failures = 0, last_modified = now,
                      payload = payload_of key_or_element\<rparr>
           in case insert_job job db of
                (Inl DuplicateKeyError, db') \<Rightarrow> (Inr (), db')
              | (Inl e, db') \<Rightarrow> (Inl e, db')
              | (Inr new_id, db') \<Rightarrow> (Inr (), db')))"

text \<open>
  \<open>get\<close>. When nothing matches, \<open>find_and_modify\<close> returns \<open>None\<close> and
  \<open>find['key']\<close> raises \<open>TypeError\<close>.
\<close>

definition get :: "queue_obj \<Rightarrow> nat \<Rightarrow> ('k, 'p) mongo
    \<Rightarrow> (error + ('k, 'p) key_or_element) \<times> ('k, 'p) mongo" where
  "get q now db =
     (case find_and_modify (open_query q)
             (\<lambda>j. j\<lparr>status := IN_PROGRESS, last_modified := now\<rparr>) (queue_coll db) of
        (None, coll) \<Rightarrow> (Inl TypeError, db\<lparr>queue_coll := coll\<rparr>)
      | (Some found, coll) \<Rightarrow>
          (Inr (Element (Some (key found)) (payload found)), db\<lparr>queue_coll := coll\<rparr>))"

text \<open>\<open>resolve_job\<close>. The result of \<open>find_and_modify\<close> is not looked at.\<close>

definition resolve_job :: "queue_obj \<Rightarrow> nat \<Rightarrow> ('k, 'p) key_or_element \<Rightarrow> ('k, 'p) mongo
    \<Rightarrow> (error + unit) \<times> ('k, 'p) mongo" where
  "resolve_job q now key_or_element db =
     (case key_of key_or_element of
        Inl e \<Rightarrow> (Inl e, db)
      | Inr k \<Rightarrow>
          (Inr (), db\<lparr>queue_coll :=
             snd (find_and_modify (key_query q k)
                    (\<lambda>j. j\<lparr>status := DONE, last_modified := now\<rparr>) (queue_coll db))\<rparr>))"

text \<open>
  \<open>mark_failed\<close>. \<open>job['failures']\<close> raises \<open>TypeError\<close> when \<open>find_one\<close> found
  nothing. The update is addressed by \<open>_id\<close>; \<open>$inc\<close> adds to the stored counter, and
  \<open>$set\<close> is part of the update when the counter that was read is 2 or more.
\<close>

definition mark_failed :: "queue_obj \<Rightarrow> ('k, 'p) key_or_element \<Rightarrow> ('k, 'p) mongo
    \<Rightarrow> (error + unit) \<times> ('k, 'p) mongo" where
  "mark_failed q key_or_element db =
     (case key_of key_or_element of
        Inl e \<Rightarrow> (Inl e, db)
      | Inr k \<Rightarrow>
          (case find_one (key_query q k) (queue_coll db) of
             None \<Rightarrow> (Inl TypeError, db)
           | Some job \<Rightarrow>
               (Inr (), db\<lparr>queue_coll :=
                  update_one (\<lambda>d. oid d = oid job)
                    (\<lambda>d. if failures job \<ge> 2
                          then d\<lparr>failures := failures d + 1, status := FAILED\<rparr>
                          else d\<lparr>failures := failures d + 1\<rparr>)
                    (queue_coll db)\<rparr>)))"

text \<open>\<open>garbage_collect\<close>.\<close>

definition garbage_collect :: "queue_obj \<Rightarrow> ('k, 'p) mongo \<Rightarrow> ('k, 'p) mongo" where
  "garbage_collect q db = db\<lparr>queue_coll := remove_all (done_query q) (queue_coll db)\<rparr>"

subsection \<open>Sequences of queue operations\<close>

text \<open>
  A call of one of the five state-changing methods, on some \<open>Queue\<close> object, with the
  clock value it reads. \<open>step\<close> performs the call and keeps the store; an exception leaves
  the store as the failed call left it.
\<close>

datatype ('k, 'p) queue_op =
    Add queue_obj nat "('k, 'p) key_or_element"
  | Get queue_obj nat
  | Resolve_job queue_obj nat "('k, 'p) key_or_element"
  | Mark_failed queue_obj "('k, 'p) key_or_element"
  | Garbage_collect queue_obj

fun step :: "('k, 'p) queue_op \<Rightarrow> ('k, 'p) mongo \<Rightarrow> ('k, 'p) mongo" where
  "step (Add q now e) db = snd (add q now e db)"
| "step (Get q now) db = snd (get q now db)"
| "step (Resolve_job q now e) db = snd (resolve_job q now e db)"
| "step (Mark_failed q e) db = snd (mark_failed q e db)"
| "step (Garbage_collect q) db = garbage_collect q db"

definition run :: "('k, 'p) queue_op list \<Rightarrow> ('k, 'p) mongo \<Rightarrow> ('k, 'p) mongo" where
  "run ops db = fold step ops db"

definition empty_store :: "('k, 'p) mongo" where
  "empty_store = \<lparr>queue_coll = [], oid_counter = 0\<rparr>"

text \<open>
  What the store guarantees of the collection: \<open>_id\<close> values are unique and were drawn
  from the counter, and the unique index on \<open>(rs, qname, key)\<close> holds.
\<close>

definition index_key :: "('k, 'p) job \<Rightarrow> string \<times> string \<times> 'k" where
  "index_key j = (rs j, qname j, key j)"

definition wf_queue :: "('k, 'p) mongo \<Rightarrow> bool" where
  "wf_queue db \<longleftrightarrow>
     distinct (map oid (queue_coll db)) \<and>
     distinct (map index_key (queue_coll db)) \<and>
     list_all (\<lambda>j. oid j < oid_counter db) (queue_coll db)"

text \<open>
  \<open>addresses op j\<close>: the call is a \<open>resolve_job\<close> or \<open>mark_failed\<close> whose query
  \<open>(rs, qname, key)\<close> selects the job \<open>j\<close>. \<open>collects op j\<close>: the call is a
  \<open>garbage_collect\<close> on the realm and queue of \<open>j\<close>.
\<close>

fun addresses :: "('k, 'p) queue_op \<Rightarrow> ('k, 'p) job \<Rightarrow> bool" where
  "addresses (Resolve_job q now e) j \<longleftrightarrow> (case key_of e of Inl x \<Rightarrow> False | Inr k \<Rightarrow> key_query q k j)"
| "addresses (Mark_failed q e) j \<longleftrightarrow> (case key_of e of Inl x \<Rightarrow> False | Inr k \<Rightarrow> key_query q k j)"
| "addresses other j \<longleftrightarrow> False"

fun collects :: "('k, 'p) queue_op \<Rightarrow> ('k, 'p) job \<Rightarrow> bool" where
  "collects (Garbage_collect q) j \<longleftrightarrow> rs j = q_rs q \<and> qname j = q_name q"
| "collects other j \<longleftrightarrow> False"

text \<open>
  \<open>gone n db\<close>: the \<open>_id\<close> value \<open>n\<close> was drawn from the counter and no document of the
  collection carries it: the document it belonged to has been deleted.
\<close>

definition gone :: "nat \<Rightarrow> ('k, 'p) mongo \<Rightarrow> bool" where
  "gone n db \<longleftrightarrow> n < oid_counter db \<and> n \<notin> oid ` set (queue_coll db)"

text \<open>
  The queue and the calls of the test block at the end of queue.py, up to the third
  \<open>get\<close>, and the three \<open>mark_failed\<close> calls on the job with key 3.
\<close>

definition test_queue :: queue_obj where
  "test_queue = \<lparr>q_name = ''TEST_QUEUE'', q_rs = ''foobar''\<rparr>"

definition test_adds :: "(int, unit) queue_op list" where
  "test_adds =
     [Add test_queue 1 (Element (Some 1) None), Add test_queue 2 (Element (Some 1) None),
      Add test_queue 3 (Element (Some 2) None), Add test_queue 4 (Element (Some 3) None)]"

definition test_gets :: "(int, unit) queue_op list" where
  "test_gets = [Get test_queue 5, Get test_queue 6, Get test_queue 7]"

definition test_fails :: "(int, unit) queue_op list" where
  "test_fails =
     [Mark_failed test_queue (Element (Some 3) None), Mark_failed test_queue (Element (Some 3) None),
      Mark_failed test_queue (Element (Some 3) None)]"

text \<open>The store after those calls: the job with key 3 has failed three times.\<close>

definition test_store :: "(int, unit) mongo" where
  "test_store = run (test_adds @ test_gets @ test_fails) empty_store"

section \<open>The synchronizer (db/mongodb.py)\<close>

subsection \<open>Values, documents and the store\<close>

text \<open>
  The values a storable field holds: numbers, strings, timestamps, byte strings, the
  store's \<open>ObjectId\<close>s, \<open>DBRef(collection, id)\<close>, lists, dicts (as association lists,
  read with \<open>map_of\<close>: the first binding of a key is the dict's) and, inside a
  submission's \<open>attachments\<close> list, \<open>Attachment\<close> objects.

  The classes \<open>Attachment\<close> and \<open>Submission\<close> are not part of the files modelled
  here. An object is what \<open>save_attachment\<close> and \<open>save_submission\<close> read of it: the
  attributes \<open>identifier\<close> (here \<open>att_identifier\<close>), \<open>filename\<close>, \<open>content\<close> (resp.
  \<open>numeric_id\<close>) and the result of its method \<open>dict()\<close>.
\<close>

type_synonym bytes = "8 word list"

datatype val =
    VInt int
  | VStr string
  | VTime nat
  | VBytes bytes
  | ObjectId nat
  | DBRef string val
  | VList "val list"
  | VDict "(string \<times> val) list"
  | VAttachment attachment
and attachment =
    Attachment (att_identifier: val) (filename: string) (content: bytes)
      (attachment_dict: "(string \<times> val) list")

datatype submission =
    Submission (numeric_id: val) (submission_dict: "(string \<times> val) list")

type_synonym document = "(string \<times> val) list"

text \<open>
  A file of GridFS: the document of \<open>fs.files\<close> (\<open>_id\<close>, \<open>length\<close>, \<open>md5\<close>,
  \<open>filename\<close>, \<open>ags\<close>) together with the bytes its chunks hold.
\<close>

record gridfile =
  file_id :: nat
  file_length :: nat
  file_md5 :: "128 word"
  file_filename :: string
  file_ags :: string
  file_data :: bytes

text \<open>The write commands sent to the store, kept in the order they were sent.\<close>

datatype store_write =
    Insert string document
  | Update string val document
  | Put val

record database =
  attachments :: "document list"
  submissions :: "document list"
  fs_files :: "gridfile list"
  db_oid_counter :: nat
  journal :: "store_write list"

definition empty_database :: database where
  "empty_database =
     \<lparr>attachments = [], submissions = [], fs_files = [], db_oid_counter = 0, journal = []\<rparr>"

text \<open>\<open>self.db[collection]\<close>, for the two collections the modelled methods use.\<close>

definition collection :: "string \<Rightarrow> database \<Rightarrow> document list" where
  "collection name db =
     (if name = ''attachments'' then attachments db
      else if name = ''submissions'' then submissions db else [])"

definition set_collection :: "string \<Rightarrow> document list \<Rightarrow> database \<Rightarrow> database" where
  "set_collection name docs db =
     (if name = ''attachments'' then db\<lparr>attachments := docs\<rparr>
      else if name = ''submissions'' then db\<lparr>submissions := docs\<rparr> else db)"

text \<open>The entry \<open>_id\<close> of a document, \<open>None\<close> when it has none.\<close>

definition doc_id :: "document \<Rightarrow> val option" where
  "doc_id d = map_of d ''_id''"

text \<open>
  \<open>insert(doc)\<close>: a document without \<open>_id\<close> gets a fresh \<open>ObjectId\<close>; one that brings
  its \<open>_id\<close> keeps it and is refused when the collection has that \<open>_id\<close> already. The
  unique indexes of \<open>setup()\<close> are not modelled: the methods insert only after the lookup
  by the same key found nothing.
\<close>

definition insert_doc :: "string \<Rightarrow> document \<Rightarrow> database \<Rightarrow> (error + val) \<times> database" where
  "insert_doc name doc db =
     (case doc_id doc of
        Some i \<Rightarrow>
          (if list_ex (\<lambda>d. doc_id d = Some i) (collection name db)
           then (Inl DuplicateKeyError, db)
           else (Inr i, (set_collection name (collection name db @ [doc]) db)
                          \<lparr>journal := journal db @ [Insert name doc]\<rparr>))
      | None \<Rightarrow>
          (let i = ObjectId (db_oid_counter db);
               doc' = AList.update ''_id'' i doc
           in (Inr i, (set_collection name (collection name db @ [doc']) db)
                        \<lparr>db_oid_counter := Suc (db_oid_counter db),
                         journal := journal db @ [Insert name doc']\<rparr>)))"

text \<open>
  \<open>update({'_id': i}, {'$set': set_attributes})\<close>: the first document with that
  \<open>_id\<close> gets the fields of \<open>set_attributes\<close>, its other fields stay.
\<close>

definition update_set :: "string \<Rightarrow> val \<Rightarrow> document \<Rightarrow> database \<Rightarrow> database" where
  "update_set name i set_attributes db =
     (set_collection name
        (update_one (\<lambda>d. doc_id d = Some i) (\<lambda>d. AList.merge d set_attributes)
           (collection name db)) db)
       \<lparr>journal := journal db @ [Update name i set_attributes]\<rparr>"

text \<open>
  \<open>self.fs.put(content, filename=..., ags=...)\<close>: always a new file; GridFS records
  the length and the md5 digest of what it stored. \<open>md5\<close> (hashlib's, a 128-bit digest)
  is a parameter of the model; the hexadecimal strings the code compares are a
  one-to-one rendering of the digests, which the model compares.
\<close>

definition fs_put :: "(bytes \<Rightarrow> 128 word) \<Rightarrow> string \<Rightarrow> bytes \<Rightarrow> string \<Rightarrow> database
    \<Rightarrow> val \<times> database" where
  "fs_put md5 ags data name db =
     (ObjectId (db_oid_counter db),
      db\<lparr>fs_files := fs_files db @
            [\<lparr>file_id = db_oid_counter db, file_length = length data, file_md5 = md5 data,
              file_filename = name, file_ags = ags, file_data = data\<rparr>],
         db_oid_counter := Suc (db_oid_counter db),
         journal := journal db @ [Put (ObjectId (db_oid_counter db))]\<rparr>)"

subsection \<open>\<open>get_object\<close> and \<open>save_attachment\<close>\<close>

text \<open>\<open>get_object\<close>; \<open>ags\<close> is \<open>self.config.AGS\<close>.\<close>

definition get_object :: "string \<Rightarrow> string \<Rightarrow> string \<Rightarrow> val \<Rightarrow> database \<Rightarrow> document option" where
  "get_object ags name k v db =
     find_one (\<lambda>d. map_of d ''ags'' = Some (VStr ags) \<and> map_of d k = Some v) (collection name db)"

text \<open>
  Lines 117 to 133 of \<open>save_attachment\<close>: the value of \<open>file_changed\<close>. It starts as
  \<open>False\<close> and becomes \<open>True\<close> only when a stored document exists, has a \<open>file\<close>
  entry, the entry is a \<open>DBRef\<close> (else the \<open>assert\<close> fails), \<open>fs.files\<close> has a file
  with the referenced \<open>_id\<close>, and that file's length differs or, the lengths being equal,
  its md5 differs.
\<close>

definition file_changed :: "(bytes \<Rightarrow> 128 word) \<Rightarrow> document option \<Rightarrow> bytes \<Rightarrow> database
    \<Rightarrow> error + bool" where
  "file_changed md5 attachment_stored data db =
     (case attachment_stored of
        None \<Rightarrow> Inr False
      | Some stored \<Rightarrow>
          (case map_of stored ''file'' of
             None \<Rightarrow> Inr False
           | Some (DBRef c i) \<Rightarrow>
               (case find_one (\<lambda>f. ObjectId (file_id f) = i) (fs_files db) of
                  None \<Rightarrow> Inr False
                | Some file_stored \<Rightarrow>
                    Inr (if file_length file_stored \<noteq> length data then True
                         else if file_md5 file_stored \<noteq> md5 data then True
                         else False))
           | Some other \<Rightarrow> Inl AssertionError))"

text \<open>
  Lines 135 to 142: the condition under which a new file version is stored, and the
  storing, which puts the reference to the new file into \<open>attachment_fresh\<close>.
\<close>

definition new_version_needed :: "document option \<Rightarrow> bool \<Rightarrow> bool" where
  "new_version_needed attachment_stored changed =
     (case attachment_stored of
        None \<Rightarrow> True
      | Some stored \<Rightarrow> changed \<and> map_of stored ''depublication'' = None)"

definition store_new_version :: "(bytes \<Rightarrow> 128 word) \<Rightarrow> string \<Rightarrow> attachment \<Rightarrow> document option
    \<Rightarrow> bool \<Rightarrow> document \<Rightarrow> database \<Rightarrow> document \<times> database" where
  "store_new_version md5 ags att attachment_stored changed attachment_fresh db =
     (if new_version_needed attachment_stored changed
      then (case fs_put md5 ags (content att) (filename att) db of
              (file_oid, db') \<Rightarrow>
                (AList.update ''file'' (DBRef ''fs.files'' file_oid) attachment_fresh, db'))
      else (attachment_fresh, db))"

text \<open>
  The loop that fills \<open>set_attributes\<close> (lines 157 to 166, and the same loop in
  \<open>save_submission\<close>): every key of the fresh dict except \<open>last_modified\<close> whose value
  the stored document lacks or has different.
\<close>

definition changed_fields :: "document \<Rightarrow> document \<Rightarrow> document" where
  "changed_fields stored fresh =
     filter (\<lambda>(k, v). k \<noteq> ''last_modified'' \<and> map_of stored k \<noteq> Some v)
       (AList.clearjunk fresh)"

text \<open>Lines 170 and 171: the stored \<open>file\<close> entry is put into \<open>set_attributes\<close>.\<close>

definition carry_file :: "document \<Rightarrow> document \<Rightarrow> document \<Rightarrow> document" where
  "carry_file stored fresh set_attributes =
     (case map_of stored ''file'' of
        None \<Rightarrow> set_attributes
      | Some f \<Rightarrow>
          (if map_of fresh ''file'' = None then AList.update ''file'' f set_attributes
           else set_attributes))"

text \<open>Lines 155 to 176: the partial update of a stored attachment.\<close>

definition partial_update :: "bool \<Rightarrow> document \<Rightarrow> document \<Rightarrow> database
    \<Rightarrow> (error + val) \<times> database" where
  "partial_update changed stored fresh db =
     (case doc_id stored of
        None \<Rightarrow> (Inl KeyError, db)
      | Some i \<Rightarrow>
          (let set_attributes = carry_file stored fresh (changed_fields stored fresh)
           in if changed \<or> set_attributes \<noteq> []
              then (case map_of fresh ''last_modified'' of
                      None \<Rightarrow> (Inl KeyError, db)
                    | Some t \<Rightarrow>
                        (Inr i, update_set ''attachments'' i
                                  (AList.update ''last_modified'' t set_attributes) db))
              else (Inr i, db)))"

text \<open>
  \<open>save_attachment\<close>. \<open>del attachment_fresh['content']\<close> raises \<open>KeyError\<close> when the
  dict has no such entry, after a new file version may have been stored.
\<close>

definition save_attachment :: "(bytes \<Rightarrow> 128 word) \<Rightarrow> string \<Rightarrow> attachment \<Rightarrow> database
    \<Rightarrow> (error + val) \<times> database" where
  "save_attachment md5 ags att db =
     (let attachment_stored = get_object ags ''attachments'' ''identifier'' (att_identifier att) db
      in case file_changed md5 attachment_stored (content att) db of
           Inl e \<Rightarrow> (Inl e, db)
         | Inr changed \<Rightarrow>
             (case store_new_version md5 ags att attachment_stored changed
                     (attachment_dict att) db of
                (fresh1, db1) \<Rightarrow>
                  (if map_of fresh1 ''content'' = None then (Inl KeyError, db1)
                   else (let attachment_fresh =
                               AList.update ''ags'' (VStr ags) (AList.delete ''content'' fresh1)
                         in case attachment_stored of
                              None \<Rightarrow> insert_doc ''attachments'' attachment_fresh db1
                            | Some stored \<Rightarrow>
                                partial_update changed stored attachment_fresh db1))))"

subsection \<open>\<open>save_submission\<close>\<close>

text \<open>
  Lines 185 to 192: every element of the list \<open>attachments\<close> is saved and replaced by
  a reference to its document. An element that is no \<open>Attachment\<close> object has no
  attribute \<open>identifier\<close>.
\<close>

fun save_attachments :: "(bytes \<Rightarrow> 128 word) \<Rightarrow> string \<Rightarrow> val list \<Rightarrow> database
    \<Rightarrow> (error + val list) \<times> database" where
  "save_attachments md5 ags [] db = (Inr [], db)"
| "save_attachments md5 ags (x # xs) db =
     (case x of
        VAttachment att \<Rightarrow>
          (case save_attachment md5 ags att db of
             (Inl e, db1) \<Rightarrow> (Inl e, db1)
           | (Inr i, db1) \<Rightarrow>
               (case save_attachments md5 ags xs db1 of
                  (Inl e, db2) \<Rightarrow> (Inl e, db2)
                | (Inr refs, db2) \<Rightarrow> (Inr (DBRef ''attachments'' i # refs), db2)))
      | other \<Rightarrow> (Inl AttributeError, db))"

text \<open>
  The loop runs over \<open>range(0, len(...))\<close>. Of a value that is no list, an empty
  string, byte string or dict passes it untouched; a non-empty string or byte string
  hands a character to \<open>save_attachment\<close>, which has no \<open>identifier\<close>; a non-empty
  dict has no key \<open>0\<close>; anything else has no \<open>len\<close>.
\<close>

definition dereference_attachments :: "(bytes \<Rightarrow> 128 word) \<Rightarrow> string \<Rightarrow> document \<Rightarrow> database
    \<Rightarrow> (error + document) \<times> database" where
  "dereference_attachments md5 ags submission_fresh db =
     (case map_of submission_fresh ''attachments'' of
        None \<Rightarrow> (Inr submission_fresh, db)
      | Some (VList xs) \<Rightarrow>
          (case save_attachments md5 ags xs db of
             (Inl e, db1) \<Rightarrow> (Inl e, db1)
           | (Inr refs, db1) \<Rightarrow>
               (Inr (AList.update ''attachments'' (VList refs) submission_fresh), db1))
      | Some (VStr s) \<Rightarrow>
          (if s = [] then (Inr submission_fresh, db) else (Inl AttributeError, db))
      | Some (VBytes b) \<Rightarrow>
          (if b = [] then (Inr submission_fresh, db) else (Inl AttributeError, db))
      | Some (VDict d) \<Rightarrow>
          (if d = [] then (Inr submission_fresh, db) else (Inl KeyError, db))
      | Some other \<Rightarrow> (Inl TypeError, db))"

text \<open>
  Lines 196 to 199: the superordinate is looked up by its \<open>numeric_id\<close>; the entry
  becomes a reference when the lookup finds a document, and stays as it is otherwise.
\<close>

definition dereference_superordinate :: "string \<Rightarrow> document \<Rightarrow> database \<Rightarrow> error + document" where
  "dereference_superordinate ags submission_fresh db =
     (case map_of submission_fresh ''superordinate'' of
        None \<Rightarrow> Inr submission_fresh
      | Some (VDict d) \<Rightarrow>
          (case map_of d ''numeric_id'' of
             None \<Rightarrow> Inl KeyError
           | Some n \<Rightarrow>
               (case get_object ags ''submissions'' ''numeric_id'' n db of
                  None \<Rightarrow> Inr submission_fresh
                | Some sup_doc \<Rightarrow>
                    (case doc_id sup_doc of
                       None \<Rightarrow> Inl KeyError
                     | Some i \<Rightarrow>
                         Inr (AList.update ''superordinate'' (DBRef ''submissions'' i)
                                submission_fresh))))
      | Some other \<Rightarrow> Inl TypeError)"

text \<open>Lines 201 to 218: partial update of the stored submission, or insert.\<close>

definition store_submission :: "document option \<Rightarrow> document \<Rightarrow> database
    \<Rightarrow> (error + val) \<times> database" where
  "store_submission submission_stored submission_fresh db =
     (case submission_stored of
        Some stored \<Rightarrow>
          (let set_attributes = changed_fields stored submission_fresh
           in if set_attributes \<noteq> []
              then (case map_of submission_fresh ''last_modified'' of
                      None \<Rightarrow> (Inl KeyError, db)
                    | Some t \<Rightarrow>
                        (case doc_id stored of
                           None \<Rightarrow> (Inl KeyError, db)
                         | Some i \<Rightarrow>
                             (Inr i, update_set ''submissions'' i
                                       (AList.update ''last_modified'' t set_attributes) db)))
              else (case doc_id stored of
                      None \<Rightarrow> (Inl KeyError, db)
                    | Some i \<Rightarrow> (Inr i, db)))
      | None \<Rightarrow> insert_doc ''submissions'' submission_fresh db)"

definition save_submission :: "(bytes \<Rightarrow> 128 word) \<Rightarrow> string \<Rightarrow> submission \<Rightarrow> database
    \<Rightarrow> (error + val) \<times> database" where
  "save_submission md5 ags sub db =
     (let submission_stored = get_object ags ''submissions'' ''numeric_id'' (numeric_id sub) db;
          submission_fresh = AList.update ''ags'' (VStr ags) (submission_dict sub)
      in case dereference_attachments md5 ags submission_fresh db of
           (Inl e, db1) \<Rightarrow> (Inl e, db1)
         | (Inr fresh1, db1) \<Rightarrow>
             (case dereference_superordinate ags fresh1 db1 of
                Inl e \<Rightarrow> (Inl e, db1)
              | Inr fresh2 \<Rightarrow> store_submission submission_stored fresh2 db1))"

text \<open>
  What the store guarantees of a collection: every document has an \<open>_id\<close>, an
  \<open>ObjectId\<close> drawn from the counter, and no two documents share it.
\<close>

definition wf_docs :: "nat \<Rightarrow> document list \<Rightarrow> bool" where
  "wf_docs n docs \<longleftrightarrow>
     distinct (map doc_id docs) \<and>
     list_all (\<lambda>d. case doc_id d of Some (ObjectId k) \<Rightarrow> k < n | other \<Rightarrow> False) docs"

text \<open>
  Objects for the evaluated examples: an attachment, the same attachment with other
  content, a depublished one, and a submission that names another as its superordinate.
  \<open>test_md5\<close> stands in for hashlib's md5 where an example has to compute a digest.
\<close>

definition test_md5 :: "bytes \<Rightarrow> 128 word" where
  "test_md5 data = of_nat (sum_list (map unat data))"

definition attachment1 :: attachment where
  "attachment1 = Attachment (VStr ''a1'') ''f.pdf'' [1, 2, 3]
     [(''identifier'', VStr ''a1''), (''filename'', VStr ''f.pdf''),
      (''content'', VBytes [1, 2, 3]), (''last_modified'', VTime 1)]"

definition attachment1_longer :: attachment where
  "attachment1_longer = Attachment (VStr ''a1'') ''f.pdf'' [1, 2, 3, 4]
     [(''identifier'', VStr ''a1''), (''filename'', VStr ''f.pdf''),
      (''content'', VBytes [1, 2, 3, 4]), (''last_modified'', VTime 2)]"

definition attachment2_depublished :: attachment where
  "attachment2_depublished = Attachment (VStr ''a2'') ''g.pdf'' [5, 6]
     [(''identifier'', VStr ''a2''), (''filename'', VStr ''g.pdf''),
      (''content'', VBytes [5, 6]), (''depublication'', VStr ''2013-01-01''),
      (''last_modified'', VTime 1)]"

definition attachment2_longer :: attachment where
  "attachment2_longer = Attachment (VStr ''a2'') ''g.pdf'' [5, 6, 7]
     [(''identifier'', VStr ''a2''), (''filename'', VStr ''g.pdf''),
      (''content'', VBytes [5, 6, 7]), (''depublication'', VStr ''2013-01-01''),
      (''last_modified'', VTime 2)]"

definition parent :: submission where
  "parent = Submission (VInt 1)
     [(''numeric_id'', VInt 1), (''identifier'', VStr ''P''), (''last_modified'', VTime 1)]"

definition child :: submission where
  "child = Submission (VInt 2)
     [(''numeric_id'', VInt 2), (''identifier'', VStr ''C''),
      (''attachments'', VList [VAttachment attachment1]),
      (''superordinate'', VDict [(''numeric_id'', VInt 1)]), (''last_modified'', VTime 1)]"

text \<open>The store after the child, then its superordinate, have been saved.\<close>

definition child_then_parent :: database where
  "child_then_parent =
     snd (save_submission test_md5 ''AGS'' parent
       (snd (save_submission test_md5 ''AGS'' child empty_database)))"

text \<open>
  Three stores for the examples: after \<open>attachment1\<close> has been saved once, after the
  depublished attachment has been saved once, and one whose only attachment document
  refers to a file that \<open>fs.files\<close> does not have.
\<close>

definition saved_once :: database where
  "saved_once = snd (save_attachment test_md5 ''AGS'' attachment1 empty_database)"

definition depublished_store :: database where
  "depublished_store = snd (save_attachment test_md5 ''AGS'' attachment2_depublished empty_database)"

definition dangling_store :: database where
  "dangling_store =
     \<lparr>attachments =
        [[(''identifier'', VStr ''a1''), (''filename'', VStr ''f.pdf''),
          (''last_modified'', VTime 1), (''file'', DBRef ''fs.files'' (ObjectId 7)),
          (''ags'', VStr ''AGS''), (''_id'', ObjectId 8)]],
      submissions = [], fs_files = [], db_oid_counter = 9, journal = []\<rparr>"

section \<open>Facts about the queue\<close>

subsection \<open>The store primitives\<close>

lemma find_and_modify_none:
  "\<forall>d\<in>set coll. \<not> query d \<Longrightarrow> find_and_modify query upd coll = (None, coll)"
  by (induction coll) auto

lemma find_and_modify_some:
  "\<exists>d\<in>set coll. query d \<Longrightarrow>
   \<exists>i<length coll. query (coll ! i) \<and> (\<forall>k<i. \<not> query (coll ! k)) \<and>
     find_and_modify query upd coll = (Some (coll ! i), coll[i := upd (coll ! i)])"
proof (induction coll)
  case Nil
  then show ?case by simp
next
  case (Cons d ds)
  show ?case
  proof (cases "query d")
    case True
    then have "query ((d # ds) ! 0) \<and> (\<forall>k<0. \<not> query ((d # ds) ! k)) \<and>
      find_and_modify query upd (d # ds) = (Some ((d # ds) ! 0), (d # ds)[0 := upd ((d # ds) ! 0)])"
      by simp
    then show ?thesis by blast
  next
    case False
    with Cons.prems have "\<exists>d\<in>set ds. query d" by simp
    from Cons.IH [OF this] obtain i where i: "i < length ds" "query (ds ! i)"
      "\<forall>k<i. \<not> query (ds ! k)"
      "find_and_modify query upd ds = (Some (ds ! i), ds[i := upd (ds ! i)])"
      by blast
    have "\<forall>k<Suc i. \<not> query ((d # ds) ! k)"
      using False i(3) by (auto simp: less_Suc_eq_0_disj)
    with False i have "Suc i < length (d # ds) \<and> query ((d # ds) ! Suc i) \<and>
      (\<forall>k<Suc i. \<not> query ((d # ds) ! k)) \<and>
      find_and_modify query upd (d # ds) =
        (Some ((d # ds) ! Suc i), (d # ds)[Suc i := upd ((d # ds) ! Suc i)])"
      by simp
    then show ?thesis by blast
  qed
qed

lemma snd_find_and_modify: "snd (find_and_modify query upd coll) = update_one query upd coll"
  by (induction coll) auto

lemma fst_find_and_modify: "fst (find_and_modify query upd coll) = find_one query coll"
  by (induction coll) (auto simp: find_one_def)

lemma update_one_none: "\<forall>d\<in>set coll. \<not> query d \<Longrightarrow> update_one query upd coll = coll"
  by (induction coll) auto

lemma length_filter_update:
  "i < length xs \<Longrightarrow> P (xs ! i) \<Longrightarrow> \<not> P y \<Longrightarrow>
   Suc (length (filter P (xs[i := y]))) = length (filter P xs)"
proof (induction xs arbitrary: i)
  case Nil
  then show ?case by simp
next
  case (Cons x xs)
  then show ?case by (cases i) auto
qed

lemma update_one_map:
  "(\<And>d. f (upd d) = f d) \<Longrightarrow> map f (update_one query upd coll) = map f coll"
  by (induction coll) auto

lemma update_one_keeps:
  "j \<in> set coll \<Longrightarrow> \<not> query j \<Longrightarrow> j \<in> set (update_one query upd coll)"
  by (induction coll) auto

lemma update_one_nth:
  assumes "distinct (map f coll)" and "i < length coll" and "query (coll ! i)"
    and "\<forall>d\<in>set coll. query d \<longrightarrow> f d = f (coll ! i)"
  shows "update_one query upd coll = coll[i := upd (coll ! i)]"
proof -
  from assms(2,3) have "\<exists>d\<in>set coll. query d" by auto
  from find_and_modify_some [OF this, of upd]
  obtain i' where i': "i' < length coll" "query (coll ! i')"
    "find_and_modify query upd coll = (Some (coll ! i'), coll[i' := upd (coll ! i')])"
    by blast
  from i'(1,2) assms(4) have "f (coll ! i') = f (coll ! i)" by simp
  with assms(1,2) i'(1) have "i' = i"
    by (metis length_map nth_eq_iff_index_eq nth_map)
  with i'(3) snd_find_and_modify [of query upd coll] show ?thesis by simp
qed

lemma find_one_nth:
  assumes "distinct (map f coll)" and "i < length coll" and "query (coll ! i)"
    and "\<forall>d\<in>set coll. query d \<longrightarrow> f d = f (coll ! i)"
  shows "find_one query coll = Some (coll ! i)"
proof -
  from assms(2,3) have "\<exists>d\<in>set coll. query d" by auto
  from find_and_modify_some [OF this, of id]
  obtain i' where i': "i' < length coll" "query (coll ! i')"
    "find_and_modify query id coll = (Some (coll ! i'), coll[i' := id (coll ! i')])"
    by blast
  from i'(1,2) assms(4) have "f (coll ! i') = f (coll ! i)" by simp
  with assms(1,2) i'(1) have "i' = i"
    by (metis length_map nth_eq_iff_index_eq nth_map)
  with i'(3) fst_find_and_modify [of query id coll] show ?thesis by simp
qed

lemma find_one_Some: "find_one query coll = Some d \<Longrightarrow> d \<in> set coll \<and> query d"
  by (auto simp: find_one_def find_Some_iff)

subsection \<open>The store invariant is kept by every method\<close>

lemma wf_update_one:
  assumes "wf_queue db" and "\<And>d. oid (upd d) = oid d" and "\<And>d. index_key (upd d) = index_key d"
  shows "wf_queue (db\<lparr>queue_coll := update_one query upd (queue_coll db)\<rparr>)"
proof -
  have "map oid (update_one query upd (queue_coll db)) = map oid (queue_coll db)"
    using assms(2) by (rule update_one_map)
  moreover have "map index_key (update_one query upd (queue_coll db)) = map index_key (queue_coll db)"
    using assms(3) by (rule update_one_map)
  moreover have "list_all (\<lambda>j. oid j < oid_counter db) (update_one query upd (queue_coll db))
    \<longleftrightarrow> list_all (\<lambda>n. n < oid_counter db) (map oid (update_one query upd (queue_coll db)))"
    by (simp add: list_all_iff)
  ultimately show ?thesis using assms(1) by (simp add: wf_queue_def list_all_iff)
qed

lemma wf_add: "wf_queue db \<Longrightarrow> wf_queue (snd (add q now e db))"
  by (cases "key_of e")
     (auto simp: add_def insert_job_def wf_queue_def list_all_iff list_ex_iff
       same_index_key_def index_key_def Let_def)

lemma wf_get: "wf_queue db \<Longrightarrow> wf_queue (snd (get q now db))"
proof -
  assume wf: "wf_queue db"
  let ?upd = "\<lambda>j::('a, 'b) job. j\<lparr>status := IN_PROGRESS, last_modified := now\<rparr>"
  have "snd (get q now db) = db\<lparr>queue_coll := update_one (open_query q) ?upd (queue_coll db)\<rparr>"
    using snd_find_and_modify [of "open_query q" ?upd "queue_coll db"]
    by (cases "find_and_modify (open_query q) ?upd (queue_coll db)")
       (auto simp: get_def split: option.splits)
  with wf_update_one [OF wf, of ?upd "open_query q"] show ?thesis
    by (simp add: index_key_def)
qed

lemma wf_resolve_job: "wf_queue db \<Longrightarrow> wf_queue (snd (resolve_job q now e db))"
proof (cases "key_of e")
  case (Inl x)
  assume "wf_queue db"
  with Inl show ?thesis by (simp add: resolve_job_def)
next
  case (Inr k)
  assume wf: "wf_queue db"
  let ?upd = "\<lambda>j::('a, 'b) job. j\<lparr>status := DONE, last_modified := now\<rparr>"
  have "snd (resolve_job q now e db) = db\<lparr>queue_coll := update_one (key_query q k) ?upd (queue_coll db)\<rparr>"
    using Inr by (simp add: resolve_job_def snd_find_and_modify)
  with wf_update_one [OF wf, of ?upd "key_query q k"] show ?thesis
    by (simp add: index_key_def)
qed

lemma wf_mark_failed: "wf_queue db \<Longrightarrow> wf_queue (snd (mark_failed q e db))"
proof -
  assume wf: "wf_queue db"
  have "\<And>upd query. (\<And>d. oid (upd d) = oid d) \<Longrightarrow> (\<And>d. index_key (upd d) = index_key d) \<Longrightarrow>
     wf_queue (db\<lparr>queue_coll := update_one query upd (queue_coll db)\<rparr>)"
    using wf by (rule wf_update_one)
  then show ?thesis using wf
    by (auto simp: mark_failed_def index_key_def split: sum.splits option.splits)
qed

lemma wf_garbage_collect: "wf_queue db \<Longrightarrow> wf_queue (garbage_collect q db)"
  by (auto simp: wf_queue_def garbage_collect_def remove_all_def list_all_iff distinct_map_filter)

lemma wf_step: "wf_queue db \<Longrightarrow> wf_queue (step op db)"
  by (cases op) (simp_all add: wf_add wf_get wf_resolve_job wf_mark_failed wf_garbage_collect)

lemma wf_run: "wf_queue db \<Longrightarrow> wf_queue (run ops db)"
  unfolding run_def by (induction ops arbitrary: db) (simp_all add: wf_step)

lemma wf_empty_store: "wf_queue empty_store"
  by (simp add: wf_queue_def empty_store_def)

lemma wf_reachable: "wf_queue (run ops empty_store)"
  by (simp add: wf_run wf_empty_store)

subsection \<open>Single calls on a job that is in the collection\<close>

lemma has_next_iff: "has_next q db \<longleftrightarrow> (\<exists>j\<in>set (queue_coll db). open_query q j)"
  by (auto simp: has_next_def len_def filter_empty_conv)

lemma key_query_index_key:
  "key_query q k a \<Longrightarrow> key_query q k b \<Longrightarrow> index_key a = index_key b"
  by (simp add: key_query_def index_key_def)

lemma resolve_job_at:
  assumes wf: "wf_queue db" and i: "i < length (queue_coll db)"
    and k: "key_of e = Inr k" and q: "key_query q k (queue_coll db ! i)"
  shows "resolve_job q now e db =
     (Inr (), db\<lparr>queue_coll := (queue_coll db)
        [i := (queue_coll db ! i)\<lparr>status := DONE, last_modified := now\<rparr>]\<rparr>)"
proof -
  from wf have d: "distinct (map index_key (queue_coll db))" by (simp add: wf_queue_def)
  from q have "\<forall>d\<in>set (queue_coll db). key_query q k d \<longrightarrow> index_key d = index_key (queue_coll db ! i)"
    by (blast intro: key_query_index_key)
  from update_one_nth [OF d i q this] k show ?thesis
    by (simp add: resolve_job_def snd_find_and_modify)
qed

lemma mark_failed_at:
  assumes wf: "wf_queue db" and i: "i < length (queue_coll db)"
    and k: "key_of e = Inr k" and q: "key_query q k (queue_coll db ! i)"
  shows "mark_failed q e db =
     (Inr (), db\<lparr>queue_coll := (queue_coll db)
        [i := (queue_coll db ! i)
           \<lparr>failures := failures (queue_coll db ! i) + 1,
            status := (if 3 \<le> failures (queue_coll db ! i) + 1 then FAILED
                       else status (queue_coll db ! i))\<rparr>]\<rparr>)"
proof -
  let ?j = "queue_coll db ! i"
  let ?upd = "\<lambda>d::('a, 'b) job. if failures ?j \<ge> 2
                 then d\<lparr>failures := failures d + 1, status := FAILED\<rparr>
                 else d\<lparr>failures := failures d + 1\<rparr>"
  from wf have d: "distinct (map index_key (queue_coll db))"
    and d': "distinct (map oid (queue_coll db))" by (simp_all add: wf_queue_def)
  from q have "\<forall>d\<in>set (queue_coll db). key_query q k d \<longrightarrow> index_key d = index_key ?j"
    by (blast intro: key_query_index_key)
  from find_one_nth [OF d i q this]
  have f: "find_one (key_query q k) (queue_coll db) = Some ?j" .
  have "update_one (\<lambda>d. oid d = oid ?j) ?upd (queue_coll db) = (queue_coll db)[i := ?upd ?j]"
    by (rule update_one_nth [OF d' i]) simp_all
  with f k show ?thesis
    by (simp add: mark_failed_def)
qed

subsection \<open>A job that was deleted does not come back\<close>

lemma set_update_one_oid:
  "(\<And>d. oid (upd d) = oid d) \<Longrightarrow> oid ` set (update_one query upd coll) = oid ` set coll"
  using update_one_map [of oid upd query coll] by (metis list.set_map)

lemma gone_step: "gone n db \<Longrightarrow> gone n (step op db)"
proof (cases op)
  case (Add q now e)
  assume "gone n db"
  with Add show ?thesis
    by (cases "key_of e") (auto simp: gone_def add_def insert_job_def Let_def)
next
  case (Get q now)
  assume g: "gone n db"
  let ?upd = "\<lambda>j::('a, 'b) job. j\<lparr>status := IN_PROGRESS, last_modified := now\<rparr>"
  have "snd (get q now db) = db\<lparr>queue_coll := update_one (open_query q) ?upd (queue_coll db)\<rparr>"
    using snd_find_and_modify [of "open_query q" ?upd "queue_coll db"]
    by (cases "find_and_modify (open_query q) ?upd (queue_coll db)")
       (auto simp: get_def split: option.splits)
  with g Get show ?thesis by (simp add: gone_def set_update_one_oid)
next
  case (Resolve_job q now e)
  assume "gone n db"
  with Resolve_job show ?thesis
    by (cases "key_of e")
       (simp_all add: gone_def resolve_job_def snd_find_and_modify set_update_one_oid)
next
  case (Mark_failed q e)
  assume "gone n db"
  with Mark_failed show ?thesis
    by (cases "key_of e")
       (auto simp: gone_def mark_failed_def set_update_one_oid split: option.splits)
next
  case (Garbage_collect q)
  assume "gone n db"
  with Garbage_collect show ?thesis
    by (auto simp: gone_def garbage_collect_def remove_all_def)
qed

lemma gone_run: "gone n db \<Longrightarrow> gone n (run ops db)"
  unfolding run_def by (induction ops arbitrary: db) (simp_all add: gone_step)

lemma gone_not_in: "gone (oid j) db \<Longrightarrow> j \<notin> set (queue_coll db)"
  by (auto simp: gone_def)

lemma terminal_step:
  assumes wf: "wf_queue db" and j: "j \<in> set (queue_coll db)"
    and t: "status j = DONE \<or> status j = FAILED" and na: "\<not> addresses op j"
  shows "if status j = DONE \<and> collects op j then gone (oid j) (step op db)
         else j \<in> set (queue_coll (step op db))"
proof (cases op)
  case (Add q now e)
  with j show ?thesis
    by (cases "key_of e") (auto simp: add_def insert_job_def Let_def)
next
  case (Get q now)
  let ?upd = "\<lambda>j::('a, 'b) job. j\<lparr>status := IN_PROGRESS, last_modified := now\<rparr>"
  have s: "snd (get q now db) = db\<lparr>queue_coll := update_one (open_query q) ?upd (queue_coll db)\<rparr>"
    using snd_find_and_modify [of "open_query q" ?upd "queue_coll db"]
    by (cases "find_and_modify (open_query q) ?upd (queue_coll db)")
       (auto simp: get_def split: option.splits)
  from t have "\<not> open_query q j" by (auto simp: open_query_def)
  with j Get s show ?thesis by (simp add: update_one_keeps)
next
  case (Resolve_job q now e)
  with j na show ?thesis
    by (cases "key_of e") (simp_all add: resolve_job_def snd_find_and_modify update_one_keeps)
next
  case (Mark_failed q e)
  show ?thesis
  proof (cases "key_of e")
    case (Inl x)
    with j Mark_failed show ?thesis by (simp add: mark_failed_def)
  next
    case (Inr k)
    show ?thesis
    proof (cases "find_one (key_query q k) (queue_coll db)")
      case None
      with j Inr Mark_failed show ?thesis by (simp add: mark_failed_def)
    next
      case (Some found)
      then have f: "found \<in> set (queue_coll db)" "key_query q k found"
        by (simp_all add: find_one_Some)
      from na Inr Mark_failed have "\<not> key_query q k j" by simp
      with f(2) have "found \<noteq> j" by auto
      moreover from wf have "inj_on oid (set (queue_coll db))"
        by (simp add: wf_queue_def distinct_map)
      ultimately have "oid j \<noteq> oid found" using f(1) j by (auto dest: inj_onD)
      with j Inr Some Mark_failed show ?thesis
        by (simp add: mark_failed_def update_one_keeps)
    qed
  qed
next
  case (Garbage_collect q)
  show ?thesis
  proof (cases "status j = DONE \<and> collects op j")
    case True
    from wf have "inj_on oid (set (queue_coll db))"
      by (simp add: wf_queue_def distinct_map)
    then have "\<forall>d\<in>set (queue_coll db). oid d = oid j \<longrightarrow> d = j"
      using j by (auto dest: inj_onD)
    moreover from wf j have "oid j < oid_counter db"
      by (simp add: wf_queue_def list_all_iff)
    ultimately show ?thesis using True Garbage_collect
      by (auto simp: gone_def garbage_collect_def remove_all_def done_query_def)
  next
    case False
    with j Garbage_collect show ?thesis
      by (auto simp: garbage_collect_def remove_all_def done_query_def)
  qed
qed

lemma terminal_run:
  assumes "wf_queue db" and "j \<in> set (queue_coll db)"
    and "status j = DONE \<or> status j = FAILED" and "list_all (\<lambda>op. \<not> addresses op j) ops"
  shows "j \<in> set (queue_coll (run ops db)) \<longleftrightarrow>
         \<not> (status j = DONE \<and> list_ex (\<lambda>op. collects op j) ops)"
  using assms
proof (induction ops arbitrary: db)
  case Nil
  then show ?case by (simp add: run_def)
next
  case (Cons op ops)
  from Cons.prems have na: "\<not> addresses op j" and nas: "list_all (\<lambda>op. \<not> addresses op j) ops"
    by simp_all
  have r: "run (op # ops) db = run ops (step op db)" by (simp add: run_def)
  note st = terminal_step [OF Cons.prems(1) Cons.prems(2) Cons.prems(3) na]
  show ?case
  proof (cases "status j = DONE \<and> collects op j")
    case True
    with st have "gone (oid j) (step op db)" by simp
    then have "j \<notin> set (queue_coll (run ops (step op db)))"
      by (blast dest: gone_run gone_not_in)
    with True r show ?thesis by simp
  next
    case False
    with st have "j \<in> set (queue_coll (step op db))" by simp
    from Cons.IH [OF wf_step [OF Cons.prems(1)] this Cons.prems(3) nas] False r
    show ?thesis by auto
  qed
qed

section \<open>The claims about the queue\<close>

text \<open>
  C3, as stated, fails. In the store the test block reaches, the job with key 3 is FAILED;
  \<open>resolve_job\<close> with that key then sets it to DONE, since its query does not look at
  the status.
\<close>

theorem resolve_job_moves_failed_to_done:
  "map (\<lambda>j. (key j, status j)) (queue_coll test_store)
     = [(1, IN_PROGRESS), (2, IN_PROGRESS), (3, FAILED)] \<and>
   map (\<lambda>j. (key j, status j)) (queue_coll (step (Resolve_job test_queue 9 (Key 3)) test_store))
     = [(1, IN_PROGRESS), (2, IN_PROGRESS), (3, DONE)]"
  by code_simp

text \<open>
  C3, amended. Let a job be DONE or FAILED in a store that satisfies the store's
  guarantees (every store reached from the empty one does). Over any sequence of calls
  none of which is a \<open>resolve_job\<close> or \<open>mark_failed\<close> naming that job's key in its
  realm and queue, the job stays in the collection with all its fields as they were,
  unless it is DONE and a \<open>garbage_collect\<close> of its realm and queue is among the calls:
  then it is deleted and does not come back. A \<open>resolve_job\<close> that names the job sets it
  to DONE and stamps it, whatever its status was; a \<open>mark_failed\<close> that names it adds
  one to its counter, and sets it to FAILED when the counter reaches 3 or more.
\<close>

theorem terminal_job_changes_only_when_named:
  assumes "wf_queue db" and "i < length (queue_coll db)"
    and "status (queue_coll db ! i) = DONE \<or> status (queue_coll db ! i) = FAILED"
  shows "(list_all (\<lambda>op. \<not> addresses op (queue_coll db ! i)) ops \<longrightarrow>
            (queue_coll db ! i \<in> set (queue_coll (run ops db)) \<longleftrightarrow>
             \<not> (status (queue_coll db ! i) = DONE \<and>
                list_ex (\<lambda>op. collects op (queue_coll db ! i)) ops))) \<and>
         (key_of e = Inr k \<and> key_query q k (queue_coll db ! i) \<longrightarrow>
            resolve_job q now e db =
              (Inr (), db\<lparr>queue_coll := (queue_coll db)
                 [i := (queue_coll db ! i)\<lparr>status := DONE, last_modified := now\<rparr>]\<rparr>) \<and>
            mark_failed q e db =
              (Inr (), db\<lparr>queue_coll := (queue_coll db)
                 [i := (queue_coll db ! i)
                    \<lparr>failures := failures (queue_coll db ! i) + 1,
                     status := (if 3 \<le> failures (queue_coll db ! i) + 1 then FAILED
                                else status (queue_coll db ! i))\<rparr>]\<rparr>))"
proof -
  from assms(2) have "queue_coll db ! i \<in> set (queue_coll db)" by simp
  from terminal_run [OF assms(1) this assms(3)]
  have "list_all (\<lambda>op. \<not> addresses op (queue_coll db ! i)) ops \<longrightarrow>
            (queue_coll db ! i \<in> set (queue_coll (run ops db)) \<longleftrightarrow>
             \<not> (status (queue_coll db ! i) = DONE \<and>
                list_ex (\<lambda>op. collects op (queue_coll db ! i)) ops))"
    by blast
  moreover have "key_of e = Inr k \<and> key_query q k (queue_coll db ! i) \<longrightarrow>
            resolve_job q now e db =
              (Inr (), db\<lparr>queue_coll := (queue_coll db)
                 [i := (queue_coll db ! i)\<lparr>status := DONE, last_modified := now\<rparr>]\<rparr>)"
    using resolve_job_at [OF assms(1) assms(2)] by blast
  moreover have "key_of e = Inr k \<and> key_query q k (queue_coll db ! i) \<longrightarrow>
            mark_failed q e db =
              (Inr (), db\<lparr>queue_coll := (queue_coll db)
                 [i := (queue_coll db ! i)
                    \<lparr>failures := failures (queue_coll db ! i) + 1,
                     status := (if 3 \<le> failures (queue_coll db ! i) + 1 then FAILED
                                else status (queue_coll db ! i))\<rparr>]\<rparr>)"
    using mark_failed_at [OF assms(1) assms(2)] by blast
  ultimately show ?thesis by blast
qed

theorem terminal_job_changes_only_when_named_witness:
  "wf_queue test_store \<and> 2 < length (queue_coll test_store) \<and>
   status (queue_coll test_store ! 2) = FAILED \<and>
   queue_coll test_store ! 2 \<in> set (queue_coll
      (run [Add test_queue 8 (Key 3), Get test_queue 9, Resolve_job test_queue 10 (Key 1),
            Garbage_collect test_queue] test_store)) \<and>
   resolve_job test_queue 11 (Key 3) test_store =
     (Inr (), test_store\<lparr>queue_coll := (queue_coll test_store)
        [2 := (queue_coll test_store ! 2)\<lparr>status := DONE, last_modified := 11\<rparr>]\<rparr>)"
proof -
  have h1: "wf_queue test_store" by code_simp
  have h2: "2 < length (queue_coll test_store)" by code_simp
  have h3: "status (queue_coll test_store ! 2) = FAILED" by code_simp
  then have h3': "status (queue_coll test_store ! 2) = DONE \<or> status (queue_coll test_store ! 2) = FAILED"
    by simp
  have h4: "list_all (\<lambda>op. \<not> addresses op (queue_coll test_store ! 2))
     [Add test_queue 8 (Key 3), Get test_queue 9, Resolve_job test_queue 10 (Key 1),
      Garbage_collect test_queue]"
    by code_simp
  have h5: "key_of (Key 3 :: (int, unit) key_or_element) = Inr 3 \<and>
     key_query test_queue 3 (queue_coll test_store ! 2)"
    by code_simp
  from terminal_job_changes_only_when_named [OF h1 h2 h3',
    of "[Add test_queue 8 (Key 3), Get test_queue 9, Resolve_job test_queue 10 (Key 1),
         Garbage_collect test_queue]" "Key 3" 3 test_queue 11] h1 h2 h3 h4 h5
  show ?thesis by simp
qed

text \<open>
  C4. For a job that is in the collection, a \<open>mark_failed\<close> call with its key returns
  without error and adds exactly one to its failure counter; in the same update the job
  becomes FAILED when that brings the counter to 3 (or beyond), and keeps its status
  otherwise; no other job changes. For a job that has not failed before, two calls leave
  it with its status and \<open>failures = 2\<close>, and the third call makes it FAILED with
  \<open>failures = 3\<close>.
\<close>

theorem mark_failed_counts_to_three:
  assumes "wf_queue db" and "i < length (queue_coll db)"
    and "key_of e = Inr k" and "key_query q k (queue_coll db ! i)"
  shows "mark_failed q e db =
           (Inr (), db\<lparr>queue_coll := (queue_coll db)
              [i := (queue_coll db ! i)
                 \<lparr>failures := failures (queue_coll db ! i) + 1,
                  status := (if failures (queue_coll db ! i) + 1 \<ge> 3 then FAILED
                             else status (queue_coll db ! i))\<rparr>]\<rparr>) \<and>
         (failures (queue_coll db ! i) = 0 \<longrightarrow>
            snd (mark_failed q e (snd (mark_failed q e db))) =
              db\<lparr>queue_coll := (queue_coll db)[i := (queue_coll db ! i)\<lparr>failures := 2\<rparr>]\<rparr> \<and>
            snd (mark_failed q e (snd (mark_failed q e (snd (mark_failed q e db))))) =
              db\<lparr>queue_coll := (queue_coll db)
                 [i := (queue_coll db ! i)\<lparr>failures := 3, status := FAILED\<rparr>]\<rparr>)"
proof -
  let ?j = "queue_coll db ! i"
  let ?mf = "\<lambda>d. snd (mark_failed q e d)"
  note one = mark_failed_at [OF assms]
  have later: "failures ?j = 0 \<longrightarrow>
      ?mf (?mf db) = db\<lparr>queue_coll := (queue_coll db)[i := ?j\<lparr>failures := 2\<rparr>]\<rparr> \<and>
      ?mf (?mf (?mf db)) =
        db\<lparr>queue_coll := (queue_coll db)[i := ?j\<lparr>failures := 3, status := FAILED\<rparr>]\<rparr>"
  proof
    assume z: "failures ?j = 0"
    define db1 where "db1 = db\<lparr>queue_coll := (queue_coll db)[i := ?j\<lparr>failures := 1\<rparr>]\<rparr>"
    define db2 where "db2 = db\<lparr>queue_coll := (queue_coll db)[i := ?j\<lparr>failures := 2\<rparr>]\<rparr>"
    have s1: "?mf db = db1" using one z by (simp add: db1_def)
    have wf1: "wf_queue db1" using wf_mark_failed [OF assms(1), of q e] s1 by simp
    have i1: "i < length (queue_coll db1)" using assms(2) by (simp add: db1_def)
    have q1: "key_query q k (queue_coll db1 ! i)"
      using assms(2,4) by (simp add: db1_def key_query_def)
    have s2: "?mf db1 = db2"
      using mark_failed_at [OF wf1 i1 assms(3) q1] assms(2) by (simp add: db1_def db2_def)
    have wf2: "wf_queue db2" using wf_mark_failed [OF wf1, of q e] s2 by simp
    have i2: "i < length (queue_coll db2)" using assms(2) by (simp add: db2_def)
    have q2: "key_query q k (queue_coll db2 ! i)"
      using assms(2,4) by (simp add: db2_def key_query_def)
    have s3: "?mf db2 = db\<lparr>queue_coll := (queue_coll db)[i := ?j\<lparr>failures := 3, status := FAILED\<rparr>]\<rparr>"
      using mark_failed_at [OF wf2 i2 assms(3) q2] assms(2) by (simp add: db2_def)
    from s1 s2 s3 show "?mf (?mf db) = db\<lparr>queue_coll := (queue_coll db)[i := ?j\<lparr>failures := 2\<rparr>]\<rparr> \<and>
      ?mf (?mf (?mf db)) =
        db\<lparr>queue_coll := (queue_coll db)[i := ?j\<lparr>failures := 3, status := FAILED\<rparr>]\<rparr>"
      by (simp add: db2_def)
  qed
  show ?thesis by (rule conjI [OF one later])
qed

theorem mark_failed_counts_to_three_witness:
  "wf_queue (run (test_adds @ test_gets) empty_store) \<and>
   2 < length (queue_coll (run (test_adds @ test_gets) empty_store)) \<and>
   key_of (Element (Some 3) None :: (int, unit) key_or_element) = Inr 3 \<and>
   key_query test_queue 3 (queue_coll (run (test_adds @ test_gets) empty_store) ! 2) \<and>
   failures (queue_coll (run (test_adds @ test_gets) empty_store) ! 2) = 0 \<and>
   map (\<lambda>j. (key j, status j, failures j))
     (queue_coll (snd (mark_failed test_queue (Element (Some 3) None)
        (snd (mark_failed test_queue (Element (Some 3) None)
           (run (test_adds @ test_gets) empty_store))))))
     = [(1, IN_PROGRESS, 0), (2, IN_PROGRESS, 0), (3, IN_PROGRESS, 2)] \<and>
   map (\<lambda>j. (key j, status j, failures j))
     (queue_coll (snd (mark_failed test_queue (Element (Some 3) None)
        (snd (mark_failed test_queue (Element (Some 3) None)
           (snd (mark_failed test_queue (Element (Some 3) None)
              (run (test_adds @ test_gets) empty_store))))))))
     = [(1, IN_PROGRESS, 0), (2, IN_PROGRESS, 0), (3, FAILED, 3)]"
proof -
  let ?db = "run (test_adds @ test_gets) empty_store :: (int, unit) mongo"
  have db: "?db = \<lparr>queue_coll =
        [\<lparr>oid = 0, rs = ''foobar'', qname = ''TEST_QUEUE'', status = IN_PROGRESS, key = 1,
          failures = 0, last_modified = 5, payload = None\<rparr>,
         \<lparr>oid = 2, rs = ''foobar'', qname = ''TEST_QUEUE'', status = IN_PROGRESS, key = 2,
          failures = 0, last_modified = 6, payload = None\<rparr>,
         \<lparr>oid = 3, rs = ''foobar'', qname = ''TEST_QUEUE'', status = IN_PROGRESS, key = 3,
          failures = 0, last_modified = 7, payload = None\<rparr>],
      oid_counter = 4\<rparr>"
    by code_simp
  have h1: "wf_queue ?db" by code_simp
  have h2: "2 < length (queue_coll ?db)" by code_simp
  have h3: "key_of (Element (Some 3) None :: (int, unit) key_or_element) = Inr 3" by simp
  have h4: "key_query test_queue 3 (queue_coll ?db ! 2)" by code_simp
  have h5: "failures (queue_coll ?db ! 2) = 0" by code_simp
  from mark_failed_counts_to_three [OF h1 h2 h3 h4] h5
  have "snd (mark_failed test_queue (Element (Some 3) None)
          (snd (mark_failed test_queue (Element (Some 3) None) ?db))) =
        ?db\<lparr>queue_coll := (queue_coll ?db)[2 := (queue_coll ?db ! 2)\<lparr>failures := 2\<rparr>]\<rparr>"
    and "snd (mark_failed test_queue (Element (Some 3) None)
          (snd (mark_failed test_queue (Element (Some 3) None)
            (snd (mark_failed test_queue (Element (Some 3) None) ?db))))) =
        ?db\<lparr>queue_coll := (queue_coll ?db)
           [2 := (queue_coll ?db ! 2)\<lparr>failures := 3, status := FAILED\<rparr>]\<rparr>"
    by blast+
  then show ?thesis using h1 h2 h3 h4 h5 by (simp add: db)
qed

text \<open>
  C5. \<open>add\<close> with a key never raises. When a job with the same realm, queue name and
  key is in the collection, in whatever status, the collection is left as it was: the
  store's \<open>DuplicateKeyError\<close> is swallowed. Otherwise exactly one job is appended, with
  status OPEN and \<open>failures = 0\<close>, and a second \<open>add\<close> of the same key changes
  nothing more, so the number of OPEN jobs has grown by one, not by two.
\<close>

theorem add_is_idempotent_enqueue:
  assumes "key_of e = Inr k"
  shows "fst (add q now e db) = Inr () \<and>
         ((\<exists>j\<in>set (queue_coll db). key_query q k j) \<longrightarrow>
            queue_coll (snd (add q now e db)) = queue_coll db) \<and>
         ((\<forall>j\<in>set (queue_coll db). \<not> key_query q k j) \<longrightarrow>
            queue_coll (snd (add q now e db)) =
              queue_coll db @
                [\<lparr>oid = oid_counter db, rs = q_rs q, qname = q_name q, status = OPEN, key = k,
                  failures = 0, last_modified = now, payload = payload_of e\<rparr>] \<and>
            queue_coll (snd (add q now' e (snd (add q now e db)))) =
              queue_coll (snd (add q now e db)) \<and>
            len q (snd (add q now' e (snd (add q now e db)))) = len q db + 1)"
proof -
  let ?job = "\<lparr>oid = 0, rs = q_rs q, qname = q_name q, status = OPEN, key = k,
                failures = 0, last_modified = now, payload = payload_of e\<rparr>"
  have dup: "\<And>d t. list_ex (same_index_key
       \<lparr>oid = 0, rs = q_rs q, qname = q_name q, status = OPEN, key = k,
         failures = 0, last_modified = t, payload = payload_of e\<rparr>) (queue_coll d)
     \<longleftrightarrow> (\<exists>j\<in>set (queue_coll d). key_query q k j)"
    unfolding list_ex_iff same_index_key_def key_query_def by (simp; metis)
  have ok: "\<And>d t. fst (add q t e d) = Inr ()"
    using assms by (simp add: add_def insert_job_def Let_def)
  have same: "\<And>d t. \<exists>j\<in>set (queue_coll d). key_query q k j \<Longrightarrow>
      queue_coll (snd (add q t e d)) = queue_coll d"
    using assms by (simp add: add_def insert_job_def Let_def dup)
  have new: "\<And>d t. \<forall>j\<in>set (queue_coll d). \<not> key_query q k j \<Longrightarrow>
      queue_coll (snd (add q t e d)) =
        queue_coll d @
          [\<lparr>oid = oid_counter d, rs = q_rs q, qname = q_name q, status = OPEN, key = k,
            failures = 0, last_modified = t, payload = payload_of e\<rparr>]"
    using assms by (simp add: add_def insert_job_def Let_def dup)
  have twice: "(\<forall>j\<in>set (queue_coll db). \<not> key_query q k j) \<longrightarrow>
      queue_coll (snd (add q now e db)) =
        queue_coll db @
          [\<lparr>oid = oid_counter db, rs = q_rs q, qname = q_name q, status = OPEN, key = k,
            failures = 0, last_modified = now, payload = payload_of e\<rparr>] \<and>
      queue_coll (snd (add q now' e (snd (add q now e db)))) =
        queue_coll (snd (add q now e db)) \<and>
      len q (snd (add q now' e (snd (add q now e db)))) = len q db + 1"
  proof
    assume a: "\<forall>j\<in>set (queue_coll db). \<not> key_query q k j"
    note n = new [OF a, of now]
    have "\<exists>j\<in>set (queue_coll (snd (add q now e db))). key_query q k j"
      by (simp add: n key_query_def)
    from same [OF this, of now'] have s: "queue_coll (snd (add q now' e (snd (add q now e db)))) =
        queue_coll (snd (add q now e db))" .
    have "len q (snd (add q now' e (snd (add q now e db)))) = len q db + 1"
      by (simp add: len_def s n open_query_def)
    with n s show "queue_coll (snd (add q now e db)) =
        queue_coll db @
          [\<lparr>oid = oid_counter db, rs = q_rs q, qname = q_name q, status = OPEN, key = k,
            failures = 0, last_modified = now, payload = payload_of e\<rparr>] \<and>
      queue_coll (snd (add q now' e (snd (add q now e db)))) =
        queue_coll (snd (add q now e db)) \<and>
      len q (snd (add q now' e (snd (add q now e db)))) = len q db + 1"
      by blast
  qed
  have "(\<exists>j\<in>set (queue_coll db). key_query q k j) \<longrightarrow>
            queue_coll (snd (add q now e db)) = queue_coll db"
    using same by blast
  with ok twice show ?thesis by blast
qed

theorem add_is_idempotent_enqueue_witness:
  "key_of (Element (Some 1) None :: (int, unit) key_or_element) = Inr 1 \<and>
   fst (add test_queue 1 (Element (Some 1) None) (empty_store :: (int, unit) mongo)) = Inr () \<and>
   len test_queue
     (snd (add test_queue 2 (Element (Some 1) None)
        (snd (add test_queue 1 (Element (Some 1) None) (empty_store :: (int, unit) mongo))))) = 1 \<and>
   queue_coll (snd (add test_queue 8 (Key 3) test_store)) = queue_coll test_store"
proof -
  have h: "key_of (Element (Some 1) None :: (int, unit) key_or_element) = Inr 1" by simp
  have h': "key_of (Key 3 :: (int, unit) key_or_element) = Inr 3" by simp
  have a: "\<forall>j\<in>set (queue_coll (empty_store :: (int, unit) mongo)). \<not> key_query test_queue 1 j"
    by (simp add: empty_store_def)
  have b: "\<exists>j\<in>set (queue_coll test_store). key_query test_queue 3 j"
    by code_simp
  have l: "len test_queue (empty_store :: (int, unit) mongo) = 0"
    by (simp add: len_def empty_store_def)
  from add_is_idempotent_enqueue [OF h, of test_queue 1 empty_store 2] a l
  have "fst (add test_queue 1 (Element (Some 1) None) (empty_store :: (int, unit) mongo)) = Inr ()"
    and "len test_queue
     (snd (add test_queue 2 (Element (Some 1) None)
        (snd (add test_queue 1 (Element (Some 1) None) (empty_store :: (int, unit) mongo))))) = 1"
    by simp_all
  moreover from add_is_idempotent_enqueue [OF h', of test_queue 8 test_store 9] b
  have "queue_coll (snd (add test_queue 8 (Key 3) test_store)) = queue_coll test_store"
    by blast
  ultimately show ?thesis using h by blast
qed

text \<open>
  C6. When the queue has an OPEN job (\<open>has_next\<close>), \<open>get\<close> returns the key and the
  payload of one OPEN job of this realm and queue name, the collection afterwards is the
  old one with that single job set to IN_PROGRESS and stamped, and the number of OPEN
  jobs, which is what \<open>__len__\<close> counts, has gone down by exactly one.
\<close>

theorem get_claims_one_open_job:
  assumes "has_next q db"
  shows "(\<exists>i<length (queue_coll db).
            open_query q (queue_coll db ! i) \<and>
            get q now db =
              (Inr (Element (Some (key (queue_coll db ! i))) (payload (queue_coll db ! i))),
               db\<lparr>queue_coll := (queue_coll db)
                 [i := (queue_coll db ! i)\<lparr>status := IN_PROGRESS, last_modified := now\<rparr>]\<rparr>)) \<and>
         len q (snd (get q now db)) + 1 = len q db \<and>
         len q db = length (filter (\<lambda>j. rs j = q_rs q \<and> qname j = q_name q \<and> status j = OPEN)
                              (queue_coll db)) \<and>
         (has_next q (snd (get q now db)) \<longleftrightarrow> 1 < len q db)"
proof -
  let ?upd = "\<lambda>j::('a, 'b) job. j\<lparr>status := IN_PROGRESS, last_modified := now\<rparr>"
  from assms have "\<exists>d\<in>set (queue_coll db). open_query q d" by (simp add: has_next_iff)
  from find_and_modify_some [OF this, of ?upd]
  obtain i where i: "i < length (queue_coll db)" "open_query q (queue_coll db ! i)"
    "find_and_modify (open_query q) ?upd (queue_coll db) =
       (Some (queue_coll db ! i), (queue_coll db)[i := ?upd (queue_coll db ! i)])"
    by blast
  have g: "get q now db =
     (Inr (Element (Some (key (queue_coll db ! i))) (payload (queue_coll db ! i))),
      db\<lparr>queue_coll := (queue_coll db)[i := ?upd (queue_coll db ! i)]\<rparr>)"
    by (simp add: get_def i(3))
  have "\<not> open_query q (?upd (queue_coll db ! i))" by (simp add: open_query_def)
  from length_filter_update [OF i(1) i(2) this]
  have l: "len q (snd (get q now db)) + 1 = len q db" by (simp add: g len_def)
  then have h: "has_next q (snd (get q now db)) \<longleftrightarrow> 1 < len q db"
    by (auto simp: has_next_def)
  have c: "len q db = length (filter (\<lambda>j. rs j = q_rs q \<and> qname j = q_name q \<and> status j = OPEN)
                              (queue_coll db))"
    by (simp add: len_def open_query_def [abs_def])
  from i(1) i(2) g have "\<exists>i<length (queue_coll db).
            open_query q (queue_coll db ! i) \<and>
            get q now db =
              (Inr (Element (Some (key (queue_coll db ! i))) (payload (queue_coll db ! i))),
               db\<lparr>queue_coll := (queue_coll db)
                 [i := (queue_coll db ! i)\<lparr>status := IN_PROGRESS, last_modified := now\<rparr>]\<rparr>)"
    by blast
  with l c h show ?thesis by blast
qed

theorem get_claims_one_open_job_witness:
  "has_next test_queue (run test_adds empty_store :: (int, unit) mongo) \<and>
   len test_queue (run test_adds empty_store :: (int, unit) mongo) = 3 \<and>
   fst (get test_queue 5 (run test_adds empty_store :: (int, unit) mongo))
     = Inr (Element (Some 1) None) \<and>
   len test_queue (snd (get test_queue 5 (run test_adds empty_store :: (int, unit) mongo))) = 2"
proof -
  have h: "has_next test_queue (run test_adds empty_store :: (int, unit) mongo)" by code_simp
  have l: "len test_queue (run test_adds empty_store :: (int, unit) mongo) = 3" by code_simp
  have r: "fst (get test_queue 5 (run test_adds empty_store :: (int, unit) mongo))
     = Inr (Element (Some 1) None)" by code_simp
  from get_claims_one_open_job [OF h, of 5] l
  have "len test_queue (snd (get test_queue 5 (run test_adds empty_store :: (int, unit) mongo))) = 2"
    by simp
  with h l r show ?thesis by blast
qed

text \<open>
  C7. When the queue has no OPEN job, \<open>get\<close> does not return a job: it raises (the
  \<open>TypeError\<close> of subscripting the \<open>None\<close> that \<open>find_and_modify\<close> returned), and the
  store is exactly as it was before the call.
\<close>

theorem get_on_empty_queue_raises:
  "\<not> has_next q db \<Longrightarrow> get q now db = (Inl TypeError, db)"
  by (simp add: has_next_iff get_def find_and_modify_none)

theorem get_on_empty_queue_raises_witness:
  "\<not> has_next test_queue test_store \<and> get test_queue 8 test_store = (Inl TypeError, test_store)"
proof -
  have h: "\<not> has_next test_queue test_store" by code_simp
  from h get_on_empty_queue_raises [OF h, of 8] show ?thesis by blast
qed

text \<open>
  C9. \<open>garbage_collect\<close> deletes exactly the DONE jobs of its realm and queue name: none
  of them is left, every other job (OPEN, IN_PROGRESS or FAILED, or of another realm or
  queue) stays, and what is left is the old collection without the deleted jobs, in the
  same order and with every field as it was.
\<close>

theorem garbage_collect_deletes_exactly_done:
  "(\<forall>j\<in>set (queue_coll (garbage_collect q db)).
      \<not> (rs j = q_rs q \<and> qname j = q_name q \<and> status j = DONE)) \<and>
   (\<forall>j\<in>set (queue_coll db).
      \<not> (rs j = q_rs q \<and> qname j = q_name q \<and> status j = DONE) \<longrightarrow>
      j \<in> set (queue_coll (garbage_collect q db))) \<and>
   queue_coll (garbage_collect q db) =
     filter (\<lambda>j. rs j \<noteq> q_rs q \<or> qname j \<noteq> q_name q \<or> status j \<noteq> DONE) (queue_coll db) \<and>
   oid_counter (garbage_collect q db) = oid_counter db"
  by (auto simp: garbage_collect_def remove_all_def done_query_def)

theorem garbage_collect_deletes_exactly_done_witness:
  "map (\<lambda>j. (rs j, qname j, key j, status j))
     (queue_coll (step (Resolve_job test_queue 8 (Key 1))
        (step (Resolve_job \<lparr>q_name = ''OTHER'', q_rs = ''foobar''\<rparr> 8 (Key 7))
           (step (Add \<lparr>q_name = ''OTHER'', q_rs = ''foobar''\<rparr> 8 (Key 7)) test_store))))
     = [(''foobar'', ''TEST_QUEUE'', 1, DONE), (''foobar'', ''TEST_QUEUE'', 2, IN_PROGRESS),
        (''foobar'', ''TEST_QUEUE'', 3, FAILED), (''foobar'', ''OTHER'', 7, DONE)] \<and>
   map (\<lambda>j. (rs j, qname j, key j, status j))
     (queue_coll (garbage_collect test_queue
        (step (Resolve_job test_queue 8 (Key 1))
          (step (Resolve_job \<lparr>q_name = ''OTHER'', q_rs = ''foobar''\<rparr> 8 (Key 7))
             (step (Add \<lparr>q_name = ''OTHER'', q_rs = ''foobar''\<rparr> 8 (Key 7)) test_store)))))
     = [(''foobar'', ''TEST_QUEUE'', 2, IN_PROGRESS),
        (''foobar'', ''TEST_QUEUE'', 3, FAILED), (''foobar'', ''OTHER'', 7, DONE)]"
proof -
  let ?db = "step (Resolve_job test_queue 8 (Key 1))
        (step (Resolve_job \<lparr>q_name = ''OTHER'', q_rs = ''foobar''\<rparr> 8 (Key 7))
           (step (Add \<lparr>q_name = ''OTHER'', q_rs = ''foobar''\<rparr> 8 (Key 7)) test_store))"
  have db: "map (\<lambda>j. (rs j, qname j, key j, status j)) (queue_coll ?db)
     = [(''foobar'', ''TEST_QUEUE'', 1, DONE), (''foobar'', ''TEST_QUEUE'', 2, IN_PROGRESS),
        (''foobar'', ''TEST_QUEUE'', 3, FAILED), (''foobar'', ''OTHER'', 7, DONE)]"
    by code_simp
  have e: "queue_coll (garbage_collect test_queue ?db) =
     filter (\<lambda>j. rs j \<noteq> q_rs test_queue \<or> qname j \<noteq> q_name test_queue \<or> status j \<noteq> DONE)
       (queue_coll ?db)"
    using garbage_collect_deletes_exactly_done [of test_queue ?db] by (rule conjunct1 [OF conjunct2 [OF conjunct2]])
  have m: "map (\<lambda>j. (rs j, qname j, key j, status j))
       (filter (\<lambda>j. rs j \<noteq> q_rs test_queue \<or> qname j \<noteq> q_name test_queue \<or> status j \<noteq> DONE)
          (queue_coll ?db))
     = [(''foobar'', ''TEST_QUEUE'', 2, IN_PROGRESS),
        (''foobar'', ''TEST_QUEUE'', 3, FAILED), (''foobar'', ''OTHER'', 7, DONE)]"
    by code_simp
  have "map (\<lambda>j. (rs j, qname j, key j, status j)) (queue_coll (garbage_collect test_queue ?db))
     = [(''foobar'', ''TEST_QUEUE'', 2, IN_PROGRESS),
        (''foobar'', ''TEST_QUEUE'', 3, FAILED), (''foobar'', ''OTHER'', 7, DONE)]"
    unfolding e by (rule m)
  with db show ?thesis by (rule conjI)
qed

text \<open>
  C10. When no job of this realm and queue name has the key, \<open>mark_failed\<close> raises (the
  \<open>TypeError\<close> of reading \<open>failures\<close> from the \<open>None\<close> that \<open>find_one\<close> returned)
  and \<open>resolve_job\<close> returns without error; both leave the store as it was.
\<close>

theorem mark_failed_needs_the_job_resolve_job_does_not:
  assumes "key_of e = Inr k" and "\<forall>j\<in>set (queue_coll db). \<not> key_query q k j"
  shows "mark_failed q e db = (Inl TypeError, db) \<and> resolve_job q now e db = (Inr (), db)"
proof -
  from assms(2) have "find_one (key_query q k) (queue_coll db) = None"
    by (simp add: find_one_def find_None_iff)
  with assms(1) have "mark_failed q e db = (Inl TypeError, db)"
    by (simp add: mark_failed_def)
  moreover from assms have "resolve_job q now e db = (Inr (), db)"
    by (simp add: resolve_job_def find_and_modify_none)
  ultimately show ?thesis by simp
qed

theorem mark_failed_needs_the_job_resolve_job_does_not_witness:
  "key_of (Key 4 :: (int, unit) key_or_element) = Inr 4 \<and>
   mark_failed test_queue (Key 4) test_store = (Inl TypeError, test_store) \<and>
   resolve_job test_queue 8 (Key 4) test_store = (Inr (), test_store)"
proof -
  have h: "key_of (Key 4 :: (int, unit) key_or_element) = Inr 4" by simp
  have a: "\<forall>j\<in>set (queue_coll test_store). \<not> key_query test_queue 4 j" by code_simp
  from mark_failed_needs_the_job_resolve_job_does_not [OF h a, of 8] h show ?thesis by blast
qed

section \<open>Facts about the synchronizer\<close>

lemma lookup_in_filtered_dict:
  assumes "distinct (map fst al)"
  shows "map_of (filter keep al) field =
           (if \<exists>v. map_of al field = Some v \<and> keep (field, v) then map_of al field else None)"
  using assms
proof (induction al)
  case Nil
  show ?case by simp
next
  case (Cons entry al)
  obtain a b where e: "entry = (a, b)" by (cases entry)
  from Cons.prems e have "a \<notin> fst ` set al" by simp
  then have n: "map_of al a = None" by (simp add: map_of_eq_None_iff)
  then have "map_of (filter keep al) a = None"
    by (auto simp: map_of_eq_None_iff)
  with Cons e n show ?case by auto
qed

lemma map_of_changed_fields:
  "map_of (changed_fields stored fresh) k =
     (case map_of fresh k of
        None \<Rightarrow> None
      | Some v \<Rightarrow> if k \<noteq> ''last_modified'' \<and> map_of stored k \<noteq> Some v then Some v else None)"
proof -
  let ?keep = "\<lambda>(k, v). k \<noteq> ''last_modified'' \<and> map_of stored k \<noteq> Some v"
  have "distinct (map fst (AList.clearjunk fresh))" by (rule distinct_clearjunk)
  from lookup_in_filtered_dict [OF this, of ?keep k]
  show ?thesis
    by (cases "map_of fresh k") (simp_all add: changed_fields_def map_of_clearjunk)
qed

lemma collection_submissions [simp]: "collection ''submissions'' db = submissions db"
  by (simp add: collection_def)

lemma collection_attachments [simp]: "collection ''attachments'' db = attachments db"
  by (simp add: collection_def)

lemma set_collection_attachments [simp]:
  "set_collection ''attachments'' docs db = db\<lparr>attachments := docs\<rparr>"
  by (simp add: set_collection_def)

lemma set_collection_submissions [simp]:
  "set_collection ''submissions'' docs db = db\<lparr>submissions := docs\<rparr>"
  by (simp add: set_collection_def)

lemma store_new_version_frame:
  "submissions (snd (store_new_version md5 ags att st ch fresh db)) = submissions db \<and>
   db_oid_counter db \<le> db_oid_counter (snd (store_new_version md5 ags att st ch fresh db))"
  by (simp add: store_new_version_def fs_put_def)

lemma insert_attachment_frame:
  "submissions (snd (insert_doc ''attachments'' doc db)) = submissions db \<and>
   db_oid_counter db \<le> db_oid_counter (snd (insert_doc ''attachments'' doc db))"
  by (simp add: insert_doc_def Let_def split: option.splits)

lemma partial_update_frame:
  "submissions (snd (partial_update ch stored fresh db)) = submissions db \<and>
   db_oid_counter db \<le> db_oid_counter (snd (partial_update ch stored fresh db))"
  by (simp add: partial_update_def update_set_def Let_def split: option.splits)

lemma save_attachment_frame:
  "submissions (snd (save_attachment md5 ags att db)) = submissions db \<and>
   db_oid_counter db \<le> db_oid_counter (snd (save_attachment md5 ags att db))"
proof -
  let ?st = "get_object ags ''attachments'' ''identifier'' (att_identifier att) db"
  show ?thesis
  proof (cases "file_changed md5 ?st (content att) db")
    case (Inl e)
    then show ?thesis by (simp add: save_attachment_def)
  next
    case (Inr ch)
    obtain fresh1 db1 where n: "store_new_version md5 ags att ?st ch (attachment_dict att) db = (fresh1, db1)"
      by fastforce
    with store_new_version_frame [of md5 ags att ?st ch "attachment_dict att" db]
    have f: "submissions db1 = submissions db" "db_oid_counter db \<le> db_oid_counter db1"
      by simp_all
    let ?fresh = "AList.update ''ags'' (VStr ags) (AList.delete ''content'' fresh1)"
    show ?thesis
    proof (cases "map_of fresh1 ''content'' = None")
      case True
      with Inr n f show ?thesis by (simp add: save_attachment_def)
    next
      case False
      show ?thesis
      proof (cases ?st)
        case None
        with Inr n False have "save_attachment md5 ags att db = insert_doc ''attachments'' ?fresh db1"
          by (auto simp: save_attachment_def)
        with insert_attachment_frame [of ?fresh db1] f show ?thesis by simp
      next
        case (Some stored)
        with Inr n False have "save_attachment md5 ags att db = partial_update ch stored ?fresh db1"
          by (auto simp: save_attachment_def)
        with partial_update_frame [of ch stored ?fresh db1] f show ?thesis by simp
      qed
    qed
  qed
qed

lemma save_attachments_frame:
  "submissions (snd (save_attachments md5 ags xs db)) = submissions db \<and>
   db_oid_counter db \<le> db_oid_counter (snd (save_attachments md5 ags xs db))"
proof (induction xs arbitrary: db)
  case Nil
  then show ?case by simp
next
  case (Cons x xs)
  show ?case
  proof (cases x)
    case (VAttachment att)
    obtain r db1 where s: "save_attachment md5 ags att db = (r, db1)" by fastforce
    with save_attachment_frame [of md5 ags att db]
    have f: "submissions db1 = submissions db" "db_oid_counter db \<le> db_oid_counter db1" by simp_all
    show ?thesis
    proof (cases r)
      case (Inl e)
      with VAttachment s f show ?thesis by simp
    next
      case (Inr i)
      obtain r2 db2 where s2: "save_attachments md5 ags xs db1 = (r2, db2)" by fastforce
      with Cons.IH [of db1] f
      have "submissions db2 = submissions db" "db_oid_counter db \<le> db_oid_counter db2" by simp_all
      with VAttachment s Inr s2 show ?thesis by (cases r2) simp_all
    qed
  qed simp_all
qed

lemma dereference_attachments_frame:
  "submissions (snd (dereference_attachments md5 ags fresh db)) = submissions db \<and>
   db_oid_counter db \<le> db_oid_counter (snd (dereference_attachments md5 ags fresh db))"
proof (cases "map_of fresh ''attachments''")
  case None
  then show ?thesis by (simp add: dereference_attachments_def)
next
  case (Some v)
  show ?thesis
  proof (cases v)
    case (VList xs)
    obtain r db1 where s: "save_attachments md5 ags xs db = (r, db1)" by fastforce
    with save_attachments_frame [of md5 ags xs db] Some VList show ?thesis
      by (cases r) (simp_all add: dereference_attachments_def)
  qed (simp_all add: dereference_attachments_def Some)
qed

lemma dereference_attachments_fields:
  "fst (dereference_attachments md5 ags fresh db) = Inr fresh1 \<Longrightarrow> k \<noteq> ''attachments'' \<Longrightarrow>
   map_of fresh1 k = map_of fresh k"
  by (auto simp: dereference_attachments_def update_conv'
      split: option.splits val.splits prod.splits sum.splits if_splits)

lemma id_below_iff:
  "(case x of Some (ObjectId k) \<Rightarrow> k < n | other \<Rightarrow> False) \<longleftrightarrow>
   (\<exists>k<n. x = Some (ObjectId k))"
proof (cases x)
  case None
  then show ?thesis by simp
next
  case (Some v)
  then show ?thesis by (cases v) simp_all
qed

lemma wf_docs_iff:
  "wf_docs n docs \<longleftrightarrow>
   distinct (map doc_id docs) \<and> (\<forall>d\<in>set docs. \<exists>k<n. doc_id d = Some (ObjectId k))"
  by (simp add: wf_docs_def list_all_iff id_below_iff)

lemma wf_docs_mono: "wf_docs n docs \<Longrightarrow> n \<le> m \<Longrightarrow> wf_docs m docs"
  unfolding wf_docs_iff by (meson less_le_trans)

lemma wf_docs_id:
  "wf_docs n docs \<Longrightarrow> d \<in> set docs \<Longrightarrow> \<exists>k<n. doc_id d = Some (ObjectId k)"
  by (simp add: wf_docs_iff)

lemma find_one_last:
  "\<forall>x\<in>set xs. \<not> query x \<Longrightarrow> query y \<Longrightarrow> find_one query (xs @ [y]) = Some y"
  by (induction xs) (simp_all add: find_one_def)

lemma get_object_in:
  "get_object ags name k v db = Some d \<Longrightarrow> d \<in> set (collection name db)"
  unfolding get_object_def by (blast dest: find_one_Some)

lemma get_object_submissions_cong:
  "submissions db1 = submissions db \<Longrightarrow>
   get_object ags ''submissions'' k v db1 = get_object ags ''submissions'' k v db"
  by (simp add: get_object_def)

lemma dereference_superordinate_result:
  assumes s: "map_of fresh ''superordinate'' = Some (VDict d)"
    and n: "map_of d ''numeric_id'' = Some n"
    and wf: "wf_docs c (submissions db)"
  shows "\<exists>fresh2. dereference_superordinate ags fresh db = Inr fresh2 \<and>
           (\<forall>k. k \<noteq> ''superordinate'' \<longrightarrow> map_of fresh2 k = map_of fresh k) \<and>
           (get_object ags ''submissions'' ''numeric_id'' n db = None \<longrightarrow>
              map_of fresh2 ''superordinate'' = Some (VDict d)) \<and>
           (\<forall>sup_doc j. get_object ags ''submissions'' ''numeric_id'' n db = Some sup_doc \<and>
              doc_id sup_doc = Some j \<longrightarrow>
              map_of fresh2 ''superordinate'' = Some (DBRef ''submissions'' j))"
proof (cases "get_object ags ''submissions'' ''numeric_id'' n db")
  case None
  with s n show ?thesis by (simp add: dereference_superordinate_def)
next
  case (Some sup_doc)
  then have "sup_doc \<in> set (submissions db)" by (auto dest: get_object_in)
  from wf_docs_id [OF wf this] obtain k where "doc_id sup_doc = Some (ObjectId k)" by blast
  with s n Some show ?thesis
    by (simp add: dereference_superordinate_def update_conv')
qed

lemma store_submission_insert:
  assumes wf: "wf_docs (db_oid_counter db) (submissions db)"
    and noid: "doc_id fresh = None"
  shows "\<exists>i doc. store_submission None fresh db =
             (Inr i, snd (store_submission None fresh db)) \<and>
           find_one (\<lambda>x. doc_id x = Some i)
             (submissions (snd (store_submission None fresh db))) = Some doc \<and>
           (\<forall>k. k \<noteq> ''_id'' \<longrightarrow> map_of doc k = map_of fresh k)"
proof -
  let ?i = "ObjectId (db_oid_counter db)"
  let ?doc = "AList.update ''_id'' ?i fresh"
  have r: "store_submission None fresh db =
      (Inr ?i, db\<lparr>submissions := submissions db @ [?doc],
                  db_oid_counter := Suc (db_oid_counter db),
                  journal := journal db @ [Insert ''submissions'' ?doc]\<rparr>)"
    using noid by (simp add: store_submission_def insert_doc_def Let_def)
  have "\<forall>x\<in>set (submissions db). \<not> doc_id x = Some ?i"
    using wf_docs_id [OF wf] by fastforce
  moreover have "doc_id ?doc = Some ?i" by (simp add: doc_id_def update_conv')
  ultimately have "find_one (\<lambda>x. doc_id x = Some ?i) (submissions db @ [?doc]) = Some ?doc"
    by (rule find_one_last)
  moreover have "\<forall>k. k \<noteq> ''_id'' \<longrightarrow> map_of ?doc k = map_of fresh k"
    by (simp add: update_conv')
  ultimately show ?thesis using r by simp
qed

lemma store_submission_update:
  assumes wf: "wf_docs (db_oid_counter db) (submissions db)"
    and st: "stored \<in> set (submissions db)"
    and noid: "doc_id fresh = None"
    and lm: "map_of fresh ''last_modified'' = Some t"
  shows "\<exists>i doc. store_submission (Some stored) fresh db =
             (Inr i, snd (store_submission (Some stored) fresh db)) \<and>
           find_one (\<lambda>x. doc_id x = Some i)
             (submissions (snd (store_submission (Some stored) fresh db))) = Some doc \<and>
           (\<forall>k v. k \<noteq> ''last_modified'' \<and> map_of fresh k = Some v \<longrightarrow> map_of doc k = Some v)"
proof -
  from wf_docs_id [OF wf st] obtain n where i: "doc_id stored = Some (ObjectId n)" by blast
  let ?i = "ObjectId n"
  let ?q = "\<lambda>x. doc_id x = Some ?i"
  from st obtain idx where idx: "idx < length (submissions db)" "submissions db ! idx = stored"
    by (auto simp: in_set_conv_nth)
  from wf have d: "distinct (map doc_id (submissions db))" by (simp add: wf_docs_def)
  have q: "?q (submissions db ! idx)" using idx i by simp
  have u: "\<forall>x\<in>set (submissions db). ?q x \<longrightarrow> doc_id x = doc_id (submissions db ! idx)"
    using idx i by simp
  let ?sa = "changed_fields stored fresh"
  show ?thesis
  proof (cases "?sa = []")
    case True
    then have r: "store_submission (Some stored) fresh db = (Inr ?i, db)"
      using i by (simp add: store_submission_def)
    have f: "find_one ?q (submissions db) = Some stored"
      using find_one_nth [OF d idx(1) q u] idx(2) by simp
    have "\<forall>k v. k \<noteq> ''last_modified'' \<and> map_of fresh k = Some v \<longrightarrow> map_of stored k = Some v"
    proof (intro allI impI)
      fix k v assume a: "k \<noteq> ''last_modified'' \<and> map_of fresh k = Some v"
      from True have "map_of ?sa k = None" by simp
      with a show "map_of stored k = Some v"
        by (simp add: map_of_changed_fields split: if_splits)
    qed
    with r f show ?thesis by simp
  next
    case False
    let ?sa' = "AList.update ''last_modified'' t ?sa"
    let ?m = "AList.merge stored ?sa'"
    have r: "store_submission (Some stored) fresh db =
        (Inr ?i, update_set ''submissions'' ?i ?sa' db)"
      using False i lm by (simp add: store_submission_def)
    have "update_one ?q (\<lambda>x. AList.merge x ?sa') (submissions db) =
        (submissions db)[idx := AList.merge (submissions db ! idx) ?sa']"
      by (rule update_one_nth [OF d idx(1) q u])
    then have s: "submissions (update_set ''submissions'' ?i ?sa' db) = (submissions db)[idx := ?m]"
      using idx(2) by (simp add: update_set_def)
    have "map_of ?sa ''_id'' = None"
      using noid by (simp add: map_of_changed_fields doc_id_def)
    then have mi: "doc_id ?m = Some ?i"
      using i by (simp add: doc_id_def merge_conv' update_conv' map_add_def)
    have md: "map doc_id ((submissions db)[idx := ?m]) = map doc_id (submissions db)"
      using mi i idx by (simp add: map_update list_update_same_conv)
    have f: "find_one ?q ((submissions db)[idx := ?m]) = Some ?m"
    proof -
      have 1: "distinct (map doc_id ((submissions db)[idx := ?m]))" using d md by simp
      have 2: "idx < length ((submissions db)[idx := ?m])" using idx(1) by simp
      have 3: "?q ((submissions db)[idx := ?m] ! idx)" using idx(1) mi by simp
      have 4: "\<forall>x\<in>set ((submissions db)[idx := ?m]). ?q x \<longrightarrow>
          doc_id x = doc_id ((submissions db)[idx := ?m] ! idx)"
        using idx(1) mi by simp
      from find_one_nth [OF 1 2 3 4] idx(1) show ?thesis by simp
    qed
    have "\<forall>k v. k \<noteq> ''last_modified'' \<and> map_of fresh k = Some v \<longrightarrow> map_of ?m k = Some v"
    proof (intro allI impI)
      fix k v assume a: "k \<noteq> ''last_modified'' \<and> map_of fresh k = Some v"
      then show "map_of ?m k = Some v"
        by (simp add: merge_conv' update_conv' map_add_def map_of_changed_fields)
    qed
    with r s f show ?thesis by simp
  qed
qed

lemma store_submission_result:
  assumes wf: "wf_docs (db_oid_counter db) (submissions db)"
    and st: "\<forall>stored. st = Some stored \<longrightarrow> stored \<in> set (submissions db)"
    and noid: "doc_id fresh = None"
    and lm: "map_of fresh ''last_modified'' = Some t"
  shows "\<exists>i doc. store_submission st fresh db = (Inr i, snd (store_submission st fresh db)) \<and>
           find_one (\<lambda>x. doc_id x = Some i)
             (submissions (snd (store_submission st fresh db))) = Some doc \<and>
           (\<forall>k v. k \<noteq> ''last_modified'' \<and> map_of fresh k = Some v \<longrightarrow> map_of doc k = Some v)"
proof (cases st)
  case None
  from store_submission_insert [OF wf noid]
  obtain i doc where a: "store_submission None fresh db =
             (Inr i, snd (store_submission None fresh db)) \<and>
           find_one (\<lambda>x. doc_id x = Some i)
             (submissions (snd (store_submission None fresh db))) = Some doc \<and>
           (\<forall>k. k \<noteq> ''_id'' \<longrightarrow> map_of doc k = map_of fresh k)"
    by (elim exE)
  have "\<forall>k v. k \<noteq> ''last_modified'' \<and> map_of fresh k = Some v \<longrightarrow> map_of doc k = Some v"
  proof (intro allI impI)
    fix k v assume b: "k \<noteq> ''last_modified'' \<and> map_of fresh k = Some v"
    with noid have "k \<noteq> ''_id''" by (auto simp: doc_id_def)
    with a b show "map_of doc k = Some v" by simp
  qed
  with a have "store_submission None fresh db =
             (Inr i, snd (store_submission None fresh db)) \<and>
           find_one (\<lambda>x. doc_id x = Some i)
             (submissions (snd (store_submission None fresh db))) = Some doc \<and>
           (\<forall>k v. k \<noteq> ''last_modified'' \<and> map_of fresh k = Some v \<longrightarrow> map_of doc k = Some v)"
    by (intro conjI) (rule conjunct1 [OF a], rule conjunct1 [OF conjunct2 [OF a]])
  then show ?thesis unfolding None by (intro exI)
next
  case (Some stored)
  from st Some have "stored \<in> set (submissions db)" by simp
  from store_submission_update [OF wf this noid lm] show ?thesis unfolding Some .
qed

lemma file_changed_Inr:
  assumes "file_changed md5 (Some stored) data db = Inr ch"
  shows "ch \<longleftrightarrow>
     (\<exists>c i f. map_of stored ''file'' = Some (DBRef c i) \<and>
        find_one (\<lambda>f. ObjectId (file_id f) = i) (fs_files db) = Some f \<and>
        (file_length f \<noteq> length data \<or> file_md5 f \<noteq> md5 data))"
proof (cases "map_of stored ''file''")
  case None
  with assms show ?thesis by (simp add: file_changed_def)
next
  case (Some v)
  show ?thesis
  proof (cases v)
    case (DBRef c i)
    show ?thesis
    proof (cases "find_one (\<lambda>f. ObjectId (file_id f) = i) (fs_files db)")
      case None
      with assms Some DBRef show ?thesis by (simp add: file_changed_def)
    next
      case (Some f)
      with assms \<open>map_of stored ''file'' = Some v\<close> DBRef show ?thesis
        by (auto simp: file_changed_def split: if_splits)
    qed
  qed (use assms Some in \<open>simp_all add: file_changed_def\<close>)
qed

lemma file_changed_Inl:
  assumes "file_changed md5 (Some stored) data db = Inl e"
  shows "\<not> (\<exists>c i. map_of stored ''file'' = Some (DBRef c i))"
  using assms by (auto simp: file_changed_def split: option.splits)

lemma partial_update_fs_files:
  "fs_files (snd (partial_update ch stored fresh db)) = fs_files db"
  by (simp add: partial_update_def update_set_def Let_def split: option.splits)

lemma partial_update_with_stored_file:
  assumes "doc_id stored = Some i" and "map_of stored ''file'' = Some f"
    and "map_of fresh ''file'' = None" and "map_of fresh ''last_modified'' = Some t"
  shows "partial_update ch stored fresh db =
    (Inr i, update_set ''attachments'' i
       (AList.update ''last_modified'' t
          (AList.update ''file'' f (changed_fields stored fresh))) db)"
proof -
  have "AList.update ''file'' f (changed_fields stored fresh) \<noteq> []"
    by (cases "changed_fields stored fresh") auto
  with assms show ?thesis by (simp add: partial_update_def carry_file_def)
qed

section \<open>The claims about the synchronizer\<close>

text \<open>
  C8. Let a submission's dict name a superordinate by \<open>numeric_id\<close> (and carry
  \<open>last_modified\<close> and no \<open>_id\<close>), let the store keep its guarantees on \<open>_id\<close>, and
  let the saving of the submission's attachments succeed. Then \<open>save_submission\<close> does
  not fail, and the document it returns the \<open>_id\<close> of has, as its \<open>superordinate\<close>,
  the literal dict when no submission of the realm has that \<open>numeric_id\<close> at the time
  of the call, and a reference to that submission's document when one has.
\<close>

theorem superordinate_literal_or_reference:
  assumes sup: "map_of (submission_dict sub) ''superordinate'' = Some (VDict d)"
    and num: "map_of d ''numeric_id'' = Some n"
    and lm: "map_of (submission_dict sub) ''last_modified'' = Some t"
    and noid: "doc_id (submission_dict sub) = None"
    and wf: "wf_docs (db_oid_counter db) (submissions db)"
    and att: "fst (dereference_attachments md5 ags
                (AList.update ''ags'' (VStr ags) (submission_dict sub)) db) = Inr fresh1"
  shows "\<exists>i doc.
           fst (save_submission md5 ags sub db) = Inr i \<and>
           find_one (\<lambda>x. doc_id x = Some i)
             (submissions (snd (save_submission md5 ags sub db))) = Some doc \<and>
           (get_object ags ''submissions'' ''numeric_id'' n db = None \<longrightarrow>
              map_of doc ''superordinate'' = Some (VDict d)) \<and>
           (\<forall>sup_doc j. get_object ags ''submissions'' ''numeric_id'' n db = Some sup_doc \<and>
              doc_id sup_doc = Some j \<longrightarrow>
              map_of doc ''superordinate'' = Some (DBRef ''submissions'' j))"
proof -
  let ?fresh0 = "AList.update ''ags'' (VStr ags) (submission_dict sub)"
  let ?stored = "get_object ags ''submissions'' ''numeric_id'' (numeric_id sub) db"
  let ?sup = "get_object ags ''submissions'' ''numeric_id'' n db"
  obtain r db1 where da: "dereference_attachments md5 ags ?fresh0 db = (r, db1)" by fastforce
  with att have r: "r = Inr fresh1" by simp
  from dereference_attachments_frame [of md5 ags ?fresh0 db] da
  have fr: "submissions db1 = submissions db" "db_oid_counter db \<le> db_oid_counter db1"
    by simp_all
  from wf fr have wf1: "wf_docs (db_oid_counter db1) (submissions db1)"
    by (simp add: wf_docs_mono)
  have f1: "\<And>k. k \<noteq> ''attachments'' \<Longrightarrow> k \<noteq> ''ags'' \<Longrightarrow>
      map_of fresh1 k = map_of (submission_dict sub) k"
    using dereference_attachments_fields [OF att] by (simp add: update_conv')
  from f1 [of "''superordinate''"] sup have sup1: "map_of fresh1 ''superordinate'' = Some (VDict d)"
    by simp
  have g: "get_object ags ''submissions'' ''numeric_id'' n db1 = ?sup"
    using fr(1) by (rule get_object_submissions_cong)
  from dereference_superordinate_result [OF sup1 num wf1, of ags]
  obtain fresh2 where c: "dereference_superordinate ags fresh1 db1 = Inr fresh2 \<and>
           (\<forall>k. k \<noteq> ''superordinate'' \<longrightarrow> map_of fresh2 k = map_of fresh1 k) \<and>
           (?sup = None \<longrightarrow> map_of fresh2 ''superordinate'' = Some (VDict d)) \<and>
           (\<forall>sup_doc j. ?sup = Some sup_doc \<and> doc_id sup_doc = Some j \<longrightarrow>
              map_of fresh2 ''superordinate'' = Some (DBRef ''submissions'' j))"
    unfolding g by (elim exE)
  note ds = conjunct1 [OF c]
  note f2 = conjunct1 [OF conjunct2 [OF c]]
  note lit = conjunct1 [OF conjunct2 [OF conjunct2 [OF c]]]
  note ref = conjunct2 [OF conjunct2 [OF conjunct2 [OF c]]]
  have some: "\<exists>v. map_of fresh2 ''superordinate'' = Some v"
  proof (cases ?sup)
    case None
    with lit show ?thesis by simp
  next
    case (Some sup_doc)
    then have "sup_doc \<in> set (submissions db)" by (auto dest: get_object_in)
    from wf_docs_id [OF wf this] obtain k where "doc_id sup_doc = Some (ObjectId k)" by (elim exE conjE)
    with ref Some show ?thesis by simp
  qed
  then obtain v where v: "map_of fresh2 ''superordinate'' = Some v" ..
  have noid2: "doc_id fresh2 = None"
    using f2 f1 [of "''_id''"] noid by (simp add: doc_id_def)
  have lm2: "map_of fresh2 ''last_modified'' = Some t"
    using f2 f1 [of "''last_modified''"] lm by simp
  have s: "save_submission md5 ags sub db = store_submission ?stored fresh2 db1"
    using da r ds by (simp add: save_submission_def)
  have st: "\<forall>stored. ?stored = Some stored \<longrightarrow> stored \<in> set (submissions db1)"
    using fr(1) by (auto dest: get_object_in)
  from store_submission_result [OF wf1 st noid2 lm2]
  obtain i doc where res: "store_submission ?stored fresh2 db1 =
             (Inr i, snd (store_submission ?stored fresh2 db1)) \<and>
           find_one (\<lambda>x. doc_id x = Some i)
             (submissions (snd (store_submission ?stored fresh2 db1))) = Some doc \<and>
           (\<forall>k v. k \<noteq> ''last_modified'' \<and> map_of fresh2 k = Some v \<longrightarrow> map_of doc k = Some v)"
    by (elim exE)
  from arg_cong [OF conjunct1 [OF res], of fst] s
  have 1: "fst (save_submission md5 ags sub db) = Inr i" by simp
  from conjunct1 [OF conjunct2 [OF res]] s have 2: "find_one (\<lambda>x. doc_id x = Some i)
             (submissions (snd (save_submission md5 ags sub db))) = Some doc" by simp
  from conjunct2 [OF conjunct2 [OF res]] v
  have 0: "map_of doc ''superordinate'' = map_of fresh2 ''superordinate''" by simp
  from 0 lit have 3: "?sup = None \<longrightarrow> map_of doc ''superordinate'' = Some (VDict d)" by simp
  from 0 ref have 4: "\<forall>sup_doc j. ?sup = Some sup_doc \<and> doc_id sup_doc = Some j \<longrightarrow>
              map_of doc ''superordinate'' = Some (DBRef ''submissions'' j)" by simp
  have "fst (save_submission md5 ags sub db) = Inr i \<and>
           find_one (\<lambda>x. doc_id x = Some i)
             (submissions (snd (save_submission md5 ags sub db))) = Some doc \<and>
           (?sup = None \<longrightarrow> map_of doc ''superordinate'' = Some (VDict d)) \<and>
           (\<forall>sup_doc j. ?sup = Some sup_doc \<and> doc_id sup_doc = Some j \<longrightarrow>
              map_of doc ''superordinate'' = Some (DBRef ''submissions'' j))"
    using 1 2 3 4 by (intro conjI)
  then show ?thesis by (intro exI)
qed

theorem superordinate_literal_or_reference_witness:
  "map_of (submission_dict child) ''superordinate'' = Some (VDict [(''numeric_id'', VInt 1)]) \<and>
   wf_docs (db_oid_counter empty_database) (submissions empty_database) \<and>
   get_object ''AGS'' ''submissions'' ''numeric_id'' (VInt 1) empty_database = None \<and>
   (\<exists>i doc. fst (save_submission test_md5 ''AGS'' child empty_database) = Inr i \<and>
      find_one (\<lambda>x. doc_id x = Some i)
        (submissions (snd (save_submission test_md5 ''AGS'' child empty_database))) = Some doc \<and>
      map_of doc ''superordinate'' = Some (VDict [(''numeric_id'', VInt 1)])) \<and>
   wf_docs (db_oid_counter child_then_parent) (submissions child_then_parent) \<and>
   (\<exists>i doc. fst (save_submission test_md5 ''AGS'' child child_then_parent) = Inr i \<and>
      find_one (\<lambda>x. doc_id x = Some i)
        (submissions (snd (save_submission test_md5 ''AGS'' child child_then_parent))) = Some doc \<and>
      map_of doc ''superordinate'' = Some (DBRef ''submissions'' (ObjectId 3)))"
proof -
  let ?fresh1 = "[(''numeric_id'', VInt 2), (''identifier'', VStr ''C''),
       (''attachments'', VList [DBRef ''attachments'' (ObjectId 1)]),
       (''superordinate'', VDict [(''numeric_id'', VInt 1)]),
       (''last_modified'', VTime 1), (''ags'', VStr ''AGS'')]"
  let ?P = "[(''numeric_id'', VInt 1), (''identifier'', VStr ''P''),
       (''last_modified'', VTime 1), (''ags'', VStr ''AGS''), (''_id'', ObjectId 3)]"
  have h1: "map_of (submission_dict child) ''superordinate'' = Some (VDict [(''numeric_id'', VInt 1)])"
    by code_simp
  have h2: "map_of [(''numeric_id'', VInt 1)] ''numeric_id'' = Some (VInt 1)" by simp
  have h3: "map_of (submission_dict child) ''last_modified'' = Some (VTime 1)" by code_simp
  have h4: "doc_id (submission_dict child) = None" by code_simp
  have h5: "wf_docs (db_oid_counter empty_database) (submissions empty_database)" by code_simp
  have h6: "fst (dereference_attachments test_md5 ''AGS''
                (AList.update ''ags'' (VStr ''AGS'') (submission_dict child)) empty_database)
            = Inr ?fresh1"
    by code_simp
  have n: "get_object ''AGS'' ''submissions'' ''numeric_id'' (VInt 1) empty_database = None"
    by code_simp
  from superordinate_literal_or_reference [OF h1 h2 h3 h4 h5 h6]
  obtain i doc where a: "fst (save_submission test_md5 ''AGS'' child empty_database) = Inr i \<and>
      find_one (\<lambda>x. doc_id x = Some i)
        (submissions (snd (save_submission test_md5 ''AGS'' child empty_database))) = Some doc \<and>
      (get_object ''AGS'' ''submissions'' ''numeric_id'' (VInt 1) empty_database = None \<longrightarrow>
         map_of doc ''superordinate'' = Some (VDict [(''numeric_id'', VInt 1)])) \<and>
      (\<forall>sup_doc j. get_object ''AGS'' ''submissions'' ''numeric_id'' (VInt 1) empty_database
           = Some sup_doc \<and> doc_id sup_doc = Some j \<longrightarrow>
         map_of doc ''superordinate'' = Some (DBRef ''submissions'' j))"
    by (elim exE)
  from conjunct1 [OF conjunct2 [OF conjunct2 [OF a]]] n
  have "map_of doc ''superordinate'' = Some (VDict [(''numeric_id'', VInt 1)])" by simp
  with conjunct1 [OF a] conjunct1 [OF conjunct2 [OF a]]
  have first: "\<exists>i doc. fst (save_submission test_md5 ''AGS'' child empty_database) = Inr i \<and>
      find_one (\<lambda>x. doc_id x = Some i)
        (submissions (snd (save_submission test_md5 ''AGS'' child empty_database))) = Some doc \<and>
      map_of doc ''superordinate'' = Some (VDict [(''numeric_id'', VInt 1)])"
    by (intro exI conjI)
  have k5: "wf_docs (db_oid_counter child_then_parent) (submissions child_then_parent)"
    by code_simp
  have k6: "fst (dereference_attachments test_md5 ''AGS''
                (AList.update ''ags'' (VStr ''AGS'') (submission_dict child)) child_then_parent)
            = Inr ?fresh1"
    by code_simp
  have s: "get_object ''AGS'' ''submissions'' ''numeric_id'' (VInt 1) child_then_parent = Some ?P \<and>
           doc_id ?P = Some (ObjectId 3)"
    by code_simp
  from superordinate_literal_or_reference [OF h1 h2 h3 h4 k5 k6]
  obtain i' doc' where b: "fst (save_submission test_md5 ''AGS'' child child_then_parent) = Inr i' \<and>
      find_one (\<lambda>x. doc_id x = Some i')
        (submissions (snd (save_submission test_md5 ''AGS'' child child_then_parent))) = Some doc' \<and>
      (get_object ''AGS'' ''submissions'' ''numeric_id'' (VInt 1) child_then_parent = None \<longrightarrow>
         map_of doc' ''superordinate'' = Some (VDict [(''numeric_id'', VInt 1)])) \<and>
      (\<forall>sup_doc j. get_object ''AGS'' ''submissions'' ''numeric_id'' (VInt 1) child_then_parent
           = Some sup_doc \<and> doc_id sup_doc = Some j \<longrightarrow>
         map_of doc' ''superordinate'' = Some (DBRef ''submissions'' j))"
    by (elim exE)
  from conjunct2 [OF conjunct2 [OF conjunct2 [OF b]], rule_format, OF s]
  have "map_of doc' ''superordinate'' = Some (DBRef ''submissions'' (ObjectId 3))" .
  with conjunct1 [OF b] conjunct1 [OF conjunct2 [OF b]]
  have second: "\<exists>i doc. fst (save_submission test_md5 ''AGS'' child child_then_parent) = Inr i \<and>
      find_one (\<lambda>x. doc_id x = Some i)
        (submissions (snd (save_submission test_md5 ''AGS'' child child_then_parent))) = Some doc \<and>
      map_of doc ''superordinate'' = Some (DBRef ''submissions'' (ObjectId 3))"
    by (intro exI conjI)
  from h1 h5 n first k5 second show ?thesis by (intro conjI)
qed

text \<open>
  C2, as stated, fails in two places. The attachment of \<open>dangling_store\<close> refers to a
  file that \<open>fs.files\<close> does not have: the claim's predicate holds (no blob exists at
  the stored reference), and \<open>save_attachment\<close> returns the stored \<open>_id\<close> without
  storing a file. The attachment of \<open>depublished_store\<close> has a stored file of 2 bytes
  and a \<open>depublication\<close> entry: saving it with 3 bytes of content stores no file
  either.
\<close>

theorem no_new_blob_for_missing_blob_or_depublished:
  "find_one (\<lambda>f. ObjectId (file_id f) = ObjectId 7) (fs_files dangling_store) = None \<and>
   fst (save_attachment test_md5 ''AGS'' attachment1 dangling_store) = Inr (ObjectId 8) \<and>
   fs_files (snd (save_attachment test_md5 ''AGS'' attachment1 dangling_store)) = [] \<and>
   map file_length (fs_files depublished_store) = [2] \<and>
   length (content attachment2_longer) = 3 \<and>
   fst (save_attachment test_md5 ''AGS'' attachment2_longer depublished_store) = Inr (ObjectId 1) \<and>
   fs_files (snd (save_attachment test_md5 ''AGS'' attachment2_longer depublished_store))
     = fs_files depublished_store"
  by code_simp

text \<open>
  C2, amended. When \<open>save_attachment\<close> finds a stored document for the attachment, it
  stores a new file version exactly when the stored document's \<open>file\<close> entry is a
  reference, \<open>fs.files\<close> has a file with the referenced \<open>_id\<close>, that file's length
  differs from the length of the content or its md5 differs from the content's md5, and
  the stored document has no \<open>depublication\<close> entry. The new file is appended to
  \<open>fs.files\<close> with the length and md5 of the content. When the lengths differ the
  content counts as changed whatever the digest function is: the length is compared
  first.
\<close>

theorem new_file_version_exactly_when:
  assumes "get_object ags ''attachments'' ''identifier'' (att_identifier att) db = Some stored"
  shows "fs_files (snd (save_attachment md5 ags att db)) =
           (if (\<exists>c i f. map_of stored ''file'' = Some (DBRef c i) \<and>
                  find_one (\<lambda>f. ObjectId (file_id f) = i) (fs_files db) = Some f \<and>
                  (file_length f \<noteq> length (content att) \<or>
                   file_md5 f \<noteq> md5 (content att))) \<and>
               map_of stored ''depublication'' = None
            then fs_files db @
                   [\<lparr>file_id = db_oid_counter db, file_length = length (content att),
                     file_md5 = md5 (content att), file_filename = filename att,
                     file_ags = ags, file_data = content att\<rparr>]
            else fs_files db) \<and>
         (\<forall>c i f. map_of stored ''file'' = Some (DBRef c i) \<and>
            find_one (\<lambda>f. ObjectId (file_id f) = i) (fs_files db) = Some f \<and>
            file_length f \<noteq> length (content att) \<longrightarrow>
            file_changed md5 (Some stored) (content att) db = Inr True)"
proof -
  let ?cond = "\<exists>c i f. map_of stored ''file'' = Some (DBRef c i) \<and>
                  find_one (\<lambda>f. ObjectId (file_id f) = i) (fs_files db) = Some f \<and>
                  (file_length f \<noteq> length (content att) \<or>
                   file_md5 f \<noteq> md5 (content att))"
  let ?new = "\<lparr>file_id = db_oid_counter db, file_length = length (content att),
                     file_md5 = md5 (content att), file_filename = filename att,
                     file_ags = ags, file_data = content att\<rparr>"
  have first: "fs_files (snd (save_attachment md5 ags att db)) =
      (if ?cond \<and> map_of stored ''depublication'' = None then fs_files db @ [?new]
       else fs_files db)"
  proof (cases "file_changed md5 (Some stored) (content att) db")
    case (Inl e)
    from file_changed_Inl [OF Inl] have "\<not> ?cond" by blast
    with Inl assms show ?thesis by (simp add: save_attachment_def)
  next
    case (Inr ch)
    from file_changed_Inr [OF Inr] have ch: "ch \<longleftrightarrow> ?cond" .
    obtain fresh1 db1 where n: "store_new_version md5 ags att (Some stored) ch
        (attachment_dict att) db = (fresh1, db1)" by fastforce
    then have f1: "fs_files db1 =
        (if ch \<and> map_of stored ''depublication'' = None then fs_files db @ [?new]
         else fs_files db)"
      by (auto simp: store_new_version_def new_version_needed_def fs_put_def split: if_splits)
    have "fs_files (snd (save_attachment md5 ags att db)) = fs_files db1"
    proof (cases "map_of fresh1 ''content'' = None")
      case True
      with Inr n assms show ?thesis by (simp add: save_attachment_def)
    next
      case False
      with Inr n assms have "save_attachment md5 ags att db =
          partial_update ch stored
            (AList.update ''ags'' (VStr ags) (AList.delete ''content'' fresh1)) db1"
        by (auto simp: save_attachment_def)
      then show ?thesis by (simp add: partial_update_fs_files)
    qed
    with f1 ch show ?thesis by simp
  qed
  have second: "\<forall>c i f. map_of stored ''file'' = Some (DBRef c i) \<and>
            find_one (\<lambda>f. ObjectId (file_id f) = i) (fs_files db) = Some f \<and>
            file_length f \<noteq> length (content att) \<longrightarrow>
            file_changed md5 (Some stored) (content att) db = Inr True"
    by (simp add: file_changed_def)
  show ?thesis by (rule conjI [OF first second])
qed

theorem new_file_version_exactly_when_witness:
  "get_object ''AGS'' ''attachments'' ''identifier'' (att_identifier attachment1_longer) saved_once
     = Some [(''identifier'', VStr ''a1''), (''filename'', VStr ''f.pdf''),
             (''last_modified'', VTime 1), (''file'', DBRef ''fs.files'' (ObjectId 0)),
             (''ags'', VStr ''AGS''), (''_id'', ObjectId 1)] \<and>
   map file_length (fs_files saved_once) = [3] \<and>
   map file_length (fs_files (snd (save_attachment test_md5 ''AGS'' attachment1_longer saved_once)))
     = [3, 4] \<and>
   fs_files (snd (save_attachment test_md5 ''AGS'' attachment1 saved_once)) = fs_files saved_once"
proof -
  let ?stored = "[(''identifier'', VStr ''a1''), (''filename'', VStr ''f.pdf''),
             (''last_modified'', VTime 1), (''file'', DBRef ''fs.files'' (ObjectId 0)),
             (''ags'', VStr ''AGS''), (''_id'', ObjectId 1)]"
  let ?f = "\<lparr>file_id = 0, file_length = 3, file_md5 = 6, file_filename = ''f.pdf'',
             file_ags = ''AGS'', file_data = [1, 2, 3]\<rparr>"
  have h: "get_object ''AGS'' ''attachments'' ''identifier'' (att_identifier attachment1_longer)
      saved_once = Some ?stored"
    by code_simp
  have h': "get_object ''AGS'' ''attachments'' ''identifier'' (att_identifier attachment1)
      saved_once = Some ?stored"
    by code_simp
  have fs: "fs_files saved_once = [?f]" by code_simp
  have l: "map file_length (fs_files saved_once) = [3]" by (simp add: fs)
  have c: "map_of ?stored ''file'' = Some (DBRef ''fs.files'' (ObjectId 0)) \<and>
     find_one (\<lambda>f. ObjectId (file_id f) = ObjectId 0) (fs_files saved_once) = Some ?f \<and>
     (file_length ?f \<noteq> length (content attachment1_longer) \<or>
      file_md5 ?f \<noteq> test_md5 (content attachment1_longer))"
    by code_simp
  then have cond: "\<exists>c i f. map_of ?stored ''file'' = Some (DBRef c i) \<and>
       find_one (\<lambda>f. ObjectId (file_id f) = i) (fs_files saved_once) = Some f \<and>
       (file_length f \<noteq> length (content attachment1_longer) \<or>
        file_md5 f \<noteq> test_md5 (content attachment1_longer))"
    by (intro exI)
  have d: "map_of ?stored ''depublication'' = None" by simp
  from conjunct1 [OF new_file_version_exactly_when [OF h, of test_md5]] cond d
  have "fs_files (snd (save_attachment test_md5 ''AGS'' attachment1_longer saved_once)) =
      fs_files saved_once @
        [\<lparr>file_id = db_oid_counter saved_once, file_length = length (content attachment1_longer),
          file_md5 = test_md5 (content attachment1_longer),
          file_filename = filename attachment1_longer,
          file_ags = ''AGS'', file_data = content attachment1_longer\<rparr>]"
    by (simp only: if_True simp_thms)
  then have two: "map file_length
      (fs_files (snd (save_attachment test_md5 ''AGS'' attachment1_longer saved_once))) = [3, 4]"
    by (simp add: fs attachment1_longer_def)
  have same: "fs_files (snd (save_attachment test_md5 ''AGS'' attachment1 saved_once))
      = fs_files saved_once"
    by code_simp
  from h l two same show ?thesis by (intro conjI)
qed

text \<open>
  C1 says that saving an attachment whose stored document and file are unchanged sends
  no write. The code does not do that. \<open>attachment1\<close> is saved into the empty store
  and then saved again, unchanged. The second call detects no change of the file and its loop finds no
  field that differs, yet it sends an update of the stored document: lines 170 and 171
  have put the stored \<open>file\<close> reference into \<open>set_attributes\<close>, which is then not
  empty.
\<close>

theorem unchanged_attachment_is_written_again:
  "get_object ''AGS'' ''attachments'' ''identifier'' (att_identifier attachment1) saved_once
     = Some [(''identifier'', VStr ''a1''), (''filename'', VStr ''f.pdf''),
             (''last_modified'', VTime 1), (''file'', DBRef ''fs.files'' (ObjectId 0)),
             (''ags'', VStr ''AGS''), (''_id'', ObjectId 1)] \<and>
   file_changed test_md5
     (get_object ''AGS'' ''attachments'' ''identifier'' (att_identifier attachment1) saved_once)
     (content attachment1) saved_once = Inr False \<and>
   changed_fields
     [(''identifier'', VStr ''a1''), (''filename'', VStr ''f.pdf''),
      (''last_modified'', VTime 1), (''file'', DBRef ''fs.files'' (ObjectId 0)),
      (''ags'', VStr ''AGS''), (''_id'', ObjectId 1)]
     (AList.update ''ags'' (VStr ''AGS'') (AList.delete ''content'' (attachment_dict attachment1)))
     = [] \<and>
   journal (snd (save_attachment test_md5 ''AGS'' attachment1 saved_once)) =
     journal saved_once @
       [Update ''attachments'' (ObjectId 1)
          [(''file'', DBRef ''fs.files'' (ObjectId 0)), (''last_modified'', VTime 1)]]"
  by code_simp

end
